theory Spec2Isabelle
  imports Main
begin

section \<open>Gmail resources as the handlers read them\<close>

text \<open>
  The provider's client library types every field of its resources as optional, and the
  source guards each read with optional chaining or a truthiness test. A field is
  therefore an \<open>option\<close>; \<open>None\<close> stands for \<open>undefined\<close> and \<open>null\<close> alike.
  Strings are byte lists: a JavaScript string is represented by its UTF-8 bytes.
\<close>

record header =
  name :: "string option"
  value_h :: "string option"

record message_part_body =
  attachmentId :: "string option"
  size_b :: "nat option"
  data :: "string option"

text \<open>A payload and each of its parts are the same resource, a MIME part.\<close>

datatype message_part =
  MessagePart
    (mimeType: "string option")
    (headers: "header list option")
    (body: "message_part_body option")
    (parts: "message_part list option")

text \<open>\<open>msgDetail.data\<close>, the resource returned by \<open>gmail.users.messages.get\<close>.\<close>

record message =
  id_m :: "string option"
  snippet :: "string option"
  payload :: "message_part option"

text \<open>An entry of \<open>res.data.messages\<close>, as returned by \<open>gmail.users.messages.list\<close>.\<close>

record listed_message =
  id_l :: "string option"
  threadId :: "string option"

text \<open>The object literal returned for each message by \<open>fetchEmails\<close>.\<close>

record message_record =
  subject :: string
  from_r :: string
  date :: string
  snippet_r :: string
  textPlain :: string
  textHtml :: string

section \<open>JavaScript idioms used by the source\<close>

text \<open>Truthiness of a value that is a string, \<open>undefined\<close> or \<open>null\<close>.\<close>

definition truthy :: "string option \<Rightarrow> bool" where
  "truthy v = (case v of None \<Rightarrow> False | Some s \<Rightarrow> s \<noteq> [])"

text \<open>\<open>v || ""\<close>.\<close>

definition or_empty :: "string option \<Rightarrow> string" where
  "or_empty v = (case v of None \<Rightarrow> [] | Some s \<Rightarrow> s)"

text \<open>\<open>x.body?.data\<close>.\<close>

definition body_data :: "message_part_body option \<Rightarrow> string option" where
  "body_data b = (case b of None \<Rightarrow> None | Some b' \<Rightarrow> data b')"

section \<open>Message extraction (the callback of \<open>fetchEmails\<close>)\<close>

text \<open>
  \<open>decode\<close> stands for \<open>s => Buffer.from(s, 'base64').toString('utf-8')\<close>, a function of
  the platform. Every general statement below holds for any such function.
\<close>

text \<open>\<open>headers.find(h => h.name === name)?.value || ""\<close>.\<close>

definition getHeader :: "header list \<Rightarrow> string \<Rightarrow> string" where
  "getHeader hs n =
     or_empty (case find (\<lambda>h. name h = Some n) hs of None \<Rightarrow> None | Some h \<Rightarrow> value_h h)"

text \<open>One iteration of \<open>for (const part of msgDetail.data.payload.parts)\<close>.\<close>

fun scan_part :: "(string \<Rightarrow> string) \<Rightarrow> message_part \<Rightarrow> string \<times> string \<Rightarrow> string \<times> string" where
  "scan_part decode part (tPlain, tHtml) =
     (let tPlain' =
            (if mimeType part = Some ''text/plain'' \<and> truthy (body_data (body part))
             then decode (or_empty (body_data (body part))) else tPlain);
          tHtml' =
            (if mimeType part = Some ''text/html'' \<and> truthy (body_data (body part))
             then decode (or_empty (body_data (body part))) else tHtml)
      in (tPlain', tHtml'))"

text \<open>The whole loop, started from the current values of the two variables.\<close>

fun scan_parts :: "(string \<Rightarrow> string) \<Rightarrow> message_part list \<Rightarrow> string \<times> string \<Rightarrow> string \<times> string" where
  "scan_parts decode [] st = st"
| "scan_parts decode (part # rest) st = scan_parts decode rest (scan_part decode part st)"

text \<open>
  The \<open>if (msgDetail.data.payload) { ... }\<close> block: the pair \<open>(textPlain, textHtml)\<close>
  after it, both variables starting as the empty string.
\<close>

definition extractBodies :: "(string \<Rightarrow> string) \<Rightarrow> message_part option \<Rightarrow> string \<times> string" where
  "extractBodies decode p =
     (case p of
        None \<Rightarrow> ([], [])
      | Some pl \<Rightarrow>
          (case parts pl of
             Some (part # rest) \<Rightarrow> scan_parts decode (part # rest) ([], [])
           | _ \<Rightarrow>
              (if truthy (body_data (body pl))
               then (decode (or_empty (body_data (body pl))), [])
               else ([], []))))"

text \<open>\<open>msgDetail.data.payload?.headers || []\<close>.\<close>

definition payload_headers :: "message \<Rightarrow> header list" where
  "payload_headers msgDetail =
     (case payload msgDetail of
        None \<Rightarrow> []
      | Some pl \<Rightarrow> (case headers pl of None \<Rightarrow> [] | Some l \<Rightarrow> l))"

definition extractMessage :: "(string \<Rightarrow> string) \<Rightarrow> message \<Rightarrow> message_record" where
  "extractMessage decode msgDetail =
     (let hs = payload_headers msgDetail;
          bodies = extractBodies decode (payload msgDetail)
      in \<lparr> subject = (if getHeader hs ''Subject'' = [] then ''(No Subject)''
                      else getHeader hs ''Subject''),
           from_r = getHeader hs ''From'',
           date = getHeader hs ''Date'',
           snippet_r = or_empty (snippet msgDetail),
           textPlain = fst bodies,
           textHtml = snd bodies \<rparr>)"

section \<open>The inbox fetch\<close>

text \<open>A rejection carries the provider's error.\<close>

datatype api_error = ApiError string

text \<open>
  The two provider calls of \<open>fetchEmails\<close>, for one authenticated client: the list call
  (user, \<open>maxResults\<close>) gives \<open>res.data.messages\<close> or rejects, the detail call
  (user, id) gives \<open>msgDetail.data\<close> or rejects.
\<close>

record gmail_api =
  messages_list :: "string \<Rightarrow> nat \<Rightarrow> api_error + listed_message list option"
  messages_get :: "string \<Rightarrow> string option \<Rightarrow> api_error + message"

text \<open>
  \<open>Promise.all\<close> over promises whose eventual outcomes are \<open>outcomes\<close>. The promises
  settle in the order \<open>sched\<close> (a list of positions); \<open>vals\<close> is the array of results
  collected so far. A fulfilment stores its value at the promise's own position; the first
  rejection settles the combined promise; once every position is filled the combined promise
  is fulfilled with the array. A position outside the array or already filled has no effect.
  \<open>None\<close>: the combined promise is still pending when the schedule ends.
\<close>

fun settle_all ::
  "nat list \<Rightarrow> (api_error + 'a) list \<Rightarrow> 'a option list \<Rightarrow> (api_error + 'a list) option" where
  "settle_all [] outcomes vals = None"
| "settle_all (i # sched) outcomes vals =
     (if length outcomes \<le> i \<or> length vals \<le> i then settle_all sched outcomes vals
      else if vals ! i \<noteq> None then settle_all sched outcomes vals
      else (case outcomes ! i of
              Inl e \<Rightarrow> Some (Inl e)
            | Inr v \<Rightarrow>
                (case those (vals[i := Some v]) of
                   Some vs \<Rightarrow> Some (Inr vs)
                 | None \<Rightarrow> settle_all sched outcomes (vals[i := Some v]))))"

definition promise_all :: "nat list \<Rightarrow> (api_error + 'a) list \<Rightarrow> (api_error + 'a list) option" where
  "promise_all sched outcomes =
     (if outcomes = [] then Some (Inr [])
      else settle_all sched outcomes (replicate (length outcomes) None))"

text \<open>The outcome of the asynchronous callback for one listed message.\<close>

definition fetchOne :: "(string \<Rightarrow> string) \<Rightarrow> gmail_api \<Rightarrow> listed_message \<Rightarrow> api_error + message_record" where
  "fetchOne decode gmail msg =
     (case messages_get gmail ''me'' (id_l msg) of
        Inl e \<Rightarrow> Inl e
      | Inr msgDetail \<Rightarrow> Inr (extractMessage decode msgDetail))"

definition fetchEmails ::
  "(string \<Rightarrow> string) \<Rightarrow> gmail_api \<Rightarrow> nat list \<Rightarrow> (api_error + message_record list) option" where
  "fetchEmails decode gmail sched =
     (case messages_list gmail ''me'' 5 of
        Inl e \<Rightarrow> Some (Inl e)
      | Inr None \<Rightarrow> Some (Inr [])
      | Inr (Some msgs) \<Rightarrow> promise_all sched (map (fetchOne decode gmail) msgs))"

section \<open>The account store and its handlers (the multi-account server)\<close>

text \<open>An entry of \<open>connectedAccounts\<close>; the tokens are opaque.\<close>

record 'tok account =
  email :: string
  tokens :: 'tok
  messages :: "message_record list"

text \<open>
  Lines 84 to 86 of the callback handler:
  \<open>if (!connectedAccounts.find(acc => acc.email === email)) connectedAccounts.push(...)\<close>.
\<close>

definition upsertIfAbsent ::
  "string \<Rightarrow> 'tok \<Rightarrow> message_record list \<Rightarrow> 'tok account list \<Rightarrow> 'tok account list" where
  "upsertIfAbsent e t m connectedAccounts =
     (if find (\<lambda>acc. email acc = e) connectedAccounts = None
      then connectedAccounts @ [\<lparr> email = e, tokens = t, messages = m \<rparr>]
      else connectedAccounts)"

text \<open>\<open>connectedAccounts = connectedAccounts.filter(acc => acc.email !== emailToDelete)\<close>.\<close>

definition removeByEmail :: "string \<Rightarrow> 'tok account list \<Rightarrow> 'tok account list" where
  "removeByEmail emailToDelete connectedAccounts =
     filter (\<lambda>acc. email acc \<noteq> emailToDelete) connectedAccounts"

datatype response =
    Redirect string
  | Send nat string
  | JsonError nat string
  | JsonSuccess
  | JsonAccounts "(string \<times> message_record list) list"

text \<open>
  What the handlers obtain from the identity and mail provider: the token exchange, the
  profile's email, and \<open>fetchEmails\<close> on a client holding the given tokens (\<open>None\<close> when
  that call never settles).
\<close>

record 'tok provider =
  getToken :: "string \<Rightarrow> api_error + 'tok"
  userinfo_get :: "'tok \<Rightarrow> api_error + string"
  fetchEmailsFor :: "'tok \<Rightarrow> (api_error + message_record list) option"

text \<open>
  \<open>GET /api/auth/google/callback\<close>. \<open>isLocal\<close> is the test on the request's host; the
  result is the store after the request and the response, \<open>None\<close> when no response is
  ever sent.
\<close>

definition auth_google_callback ::
  "'tok provider \<Rightarrow> bool \<Rightarrow> string option \<Rightarrow> 'tok account list
     \<Rightarrow> ('tok account list \<times> response) option" where
  "auth_google_callback g isLocal code connectedAccounts =
     (if \<not> truthy code then Some (connectedAccounts, Send 400 ''Missing authorization code.'')
      else
        (case getToken g (or_empty code) of
           Inl err \<Rightarrow> Some (connectedAccounts, Send 500 ''Authentication failed.'')
         | Inr toks \<Rightarrow>
            (case userinfo_get g toks of
               Inl err \<Rightarrow> Some (connectedAccounts, Send 500 ''Authentication failed.'')
             | Inr e \<Rightarrow>
                (case fetchEmailsFor g toks of
                   None \<Rightarrow> None
                 | Some (Inl err) \<Rightarrow> Some (connectedAccounts, Send 500 ''Authentication failed.'')
                 | Some (Inr msgs) \<Rightarrow>
                     Some (upsertIfAbsent e toks msgs connectedAccounts,
                           Redirect (if isLocal then ''http://localhost:5173/inbox''
                                     else ''https://chatterbytefrontend.vercel.app/inbox''))))))"

text \<open>
  The loop of \<open>GET /api/emails\<close> over the accounts still to visit, \<open>updatedAccounts\<close>
  being the array built so far. A rejection leaves the loop (it is caught by the handler).
\<close>

fun refreshLoop ::
  "'tok provider \<Rightarrow> 'tok account list \<Rightarrow> (string \<times> message_record list) list
     \<Rightarrow> (api_error + (string \<times> message_record list) list) option" where
  "refreshLoop g [] updatedAccounts = Some (Inr updatedAccounts)"
| "refreshLoop g (acc # rest) updatedAccounts =
     (case fetchEmailsFor g (tokens acc) of
        None \<Rightarrow> None
      | Some (Inl err) \<Rightarrow> Some (Inl err)
      | Some (Inr msgs) \<Rightarrow> refreshLoop g rest (updatedAccounts @ [(email acc, msgs)]))"

text \<open>\<open>GET /api/emails\<close>: the store after the request and the response.\<close>

definition refreshAndListAll ::
  "'tok provider \<Rightarrow> 'tok account list \<Rightarrow> ('tok account list \<times> response) option" where
  "refreshAndListAll g connectedAccounts =
     (case refreshLoop g connectedAccounts [] of
        None \<Rightarrow> None
      | Some (Inl err) \<Rightarrow> Some (connectedAccounts, JsonError 500 ''Failed to fetch emails'')
      | Some (Inr updatedAccounts) \<Rightarrow> Some (connectedAccounts, JsonAccounts updatedAccounts))"

text \<open>\<open>DELETE /api/emails/:email\<close>.\<close>

definition delete_email :: "string \<Rightarrow> 'tok account list \<Rightarrow> 'tok account list \<times> response" where
  "delete_email emailToDelete connectedAccounts =
     (removeByEmail emailToDelete connectedAccounts, JsonSuccess)"

text \<open>The store operations, and the store after a sequence of them.\<close>

datatype 'tok store_op =
    Upsert string 'tok "message_record list"
  | Remove string
  | Refresh

fun apply_op :: "'tok provider \<Rightarrow> 'tok store_op \<Rightarrow> 'tok account list \<Rightarrow> 'tok account list" where
  "apply_op g (Upsert e t m) s = upsertIfAbsent e t m s"
| "apply_op g (Remove e) s = fst (delete_email e s)"
| "apply_op g Refresh s = (case refreshAndListAll g s of None \<Rightarrow> s | Some (s', r) \<Rightarrow> s')"

fun run_ops :: "'tok provider \<Rightarrow> 'tok store_op list \<Rightarrow> 'tok account list \<Rightarrow> 'tok account list" where
  "run_ops g [] s = s"
| "run_ops g (op # ops) s = run_ops g ops (apply_op g op s)"

section \<open>A base64 decoder for the examples\<close>

text \<open>
  The value of a character in the base64 alphabet; like the platform's decoder it accepts
  the URL-safe characters too.
\<close>

definition b64_value :: "char \<Rightarrow> nat option" where
  "b64_value c =
     (let n = (of_char c :: nat) in
      if 65 \<le> n \<and> n \<le> 90 then Some (n - 65)
      else if 97 \<le> n \<and> n \<le> 122 then Some (n - 71)
      else if 48 \<le> n \<and> n \<le> 57 then Some (n + 4)
      else if c = CHR ''+'' \<or> c = CHR ''-'' then Some 62
      else if c = CHR ''/'' \<or> c = CHR ''_'' then Some 63
      else None)"

text \<open>Four six-bit values give three bytes; a final group of three gives two, of two gives one.\<close>

fun b64_bytes :: "nat list \<Rightarrow> nat list" where
  "b64_bytes (a # b # c # d # rest) =
     (a * 4 + b div 16) # ((b mod 16) * 16 + c div 4) # ((c mod 4) * 64 + d) # b64_bytes rest"
| "b64_bytes [a, b, c] = [a * 4 + b div 16, (b mod 16) * 16 + c div 4]"
| "b64_bytes [a, b] = [a * 4 + b div 16]"
| "b64_bytes _ = []"

text \<open>
  \<open>Buffer.from(s, 'base64').toString('utf-8')\<close> on a string of the base64 alphabet with
  optional padding whose bytes are valid UTF-8: decoding stops at the padding, and the
  bytes are the string.
\<close>

definition base64_utf8 :: "string \<Rightarrow> string" where
  "base64_utf8 s =
     map char_of (b64_bytes (List.map_filter b64_value (takeWhile (\<lambda>c. c \<noteq> CHR ''='') s)))"

section \<open>Example data\<close>

text \<open>
  A message with an inline text body, an HTML alternative and an attached text file: the
  attachment is a \<open>text/plain\<close> part whose body names the attachment and carries no data.
\<close>

definition ex_inline_plain :: message_part where
  "ex_inline_plain =
     MessagePart (Some ''text/plain'') None
       (Some \<lparr> attachmentId = None, size_b = Some 2, data = Some ''aGk='' \<rparr>) None"

definition ex_inline_html :: message_part where
  "ex_inline_html =
     MessagePart (Some ''text/html'') None
       (Some \<lparr> attachmentId = None, size_b = Some 9, data = Some ''PGI-aGk8L2I-'' \<rparr>) None"

definition ex_attached_text :: message_part where
  "ex_attached_text =
     MessagePart (Some ''text/plain'') None
       (Some \<lparr> attachmentId = Some ''ANGjdJ8w'', size_b = Some 120, data = None \<rparr>) None"

text \<open>A second inline text part, decoding to another text than the first.\<close>

definition ex_second_plain :: message_part where
  "ex_second_plain =
     MessagePart (Some ''text/plain'') None
       (Some \<lparr> attachmentId = None, size_b = Some 2, data = Some ''aG8='' \<rparr>) None"

definition ex_headers :: "header list" where
  "ex_headers =
     [\<lparr> name = Some ''From'', value_h = Some ''a@example.com'' \<rparr>,
      \<lparr> name = Some ''Subject'', value_h = Some ''Hello'' \<rparr>,
      \<lparr> name = Some ''Date'', value_h = Some ''Mon, 1 Jan 2024'' \<rparr>,
      \<lparr> name = Some ''Subject'', value_h = Some ''Second'' \<rparr>]"

definition ex_payload_attach :: message_part where
  "ex_payload_attach =
     MessagePart (Some ''multipart/mixed'') (Some ex_headers) None
       (Some [ex_inline_plain, ex_inline_html, ex_attached_text])"

definition ex_detail_attach :: message where
  "ex_detail_attach =
     \<lparr> id_m = Some ''m1'', snippet = Some ''hi'', payload = Some ex_payload_attach \<rparr>"

text \<open>
  A message with two inline text parts that carry data, the HTML alternative and the
  attachment.
\<close>

definition ex_detail_two_plain :: message where
  "ex_detail_two_plain =
     \<lparr> id_m = Some ''m4'', snippet = Some ''hi'',
       payload = Some (MessagePart (Some ''multipart/mixed'') (Some ex_headers) None
         (Some [ex_inline_plain, ex_second_plain, ex_inline_html, ex_attached_text])) \<rparr>"

text \<open>A message whose payload has no parts, an HTML body and no \<open>Subject\<close> header.\<close>

definition ex_payload_single :: message_part where
  "ex_payload_single =
     MessagePart (Some ''text/html'')
       (Some [\<lparr> name = Some ''subject'', value_h = Some ''lower case'' \<rparr>,
              \<lparr> name = Some ''From'', value_h = Some ''b@example.com'' \<rparr>])
       (Some \<lparr> attachmentId = None, size_b = Some 9, data = Some ''PGI-aGk8L2I-'' \<rparr>) None"

definition ex_detail_single :: message where
  "ex_detail_single =
     \<lparr> id_m = Some ''m2'', snippet = None, payload = Some ex_payload_single \<rparr>"

text \<open>A message with an empty \<open>Subject\<close> header before a non-empty one, and no body.\<close>

definition ex_detail_empty_subject :: message where
  "ex_detail_empty_subject =
     \<lparr> id_m = Some ''m3'', snippet = Some [],
       payload = Some (MessagePart (Some ''text/plain'')
         (Some [\<lparr> name = Some ''Subject'', value_h = Some [] \<rparr>,
                \<lparr> name = Some ''Subject'', value_h = Some ''Later'' \<rparr>]) None None) \<rparr>"

text \<open>A mailbox listing both messages, and one whose second detail call is rejected.\<close>

definition ex_listed :: "listed_message list" where
  "ex_listed = [\<lparr> id_l = Some ''m1'', threadId = Some ''t1'' \<rparr>,
                \<lparr> id_l = Some ''m2'', threadId = Some ''t2'' \<rparr>]"

definition ex_detail_of :: "listed_message \<Rightarrow> message" where
  "ex_detail_of m = (if id_l m = Some ''m1'' then ex_detail_attach else ex_detail_single)"

definition ex_gmail :: gmail_api where
  "ex_gmail =
     \<lparr> messages_list = (\<lambda>u n. Inr (Some ex_listed)),
       messages_get = (\<lambda>u i. Inr (if i = Some ''m1'' then ex_detail_attach else ex_detail_single)) \<rparr>"

definition ex_gmail_failing :: gmail_api where
  "ex_gmail_failing =
     \<lparr> messages_list = (\<lambda>u n. Inr (Some ex_listed)),
       messages_get = (\<lambda>u i. if i = Some ''m1'' then Inr ex_detail_attach
                              else Inl (ApiError ''backend error'')) \<rparr>"

text \<open>A completion order in which the second detail fetch completes first.\<close>

definition ex_sched :: "nat list" where
  "ex_sched = [1, 0]"

text \<open>A provider whose tokens are numbers; every client sees the mailbox above.\<close>

definition ex_provider :: "nat provider" where
  "ex_provider =
     \<lparr> getToken = (\<lambda>c. Inr 7),
       userinfo_get = (\<lambda>t. Inr ''a@example.com''),
       fetchEmailsFor = (\<lambda>t. fetchEmails base64_utf8 ex_gmail ex_sched) \<rparr>"

definition ex_account :: "nat account" where
  "ex_account = \<lparr> email = ''a@example.com'', tokens = 7, messages = [] \<rparr>"

text \<open>Two logins with the first email around one with another, a refresh and a removal.\<close>

definition ex_ops :: "nat store_op list" where
  "ex_ops = [Upsert ''a@example.com'' 7 [], Upsert ''b@example.com'' 8 [],
             Upsert ''a@example.com'' 9 [], Refresh, Remove ''b@example.com'']"

section \<open>Properties of the part scan\<close>

lemma scan_parts_append: "scan_parts decode (xs @ ys) st = scan_parts decode ys (scan_parts decode xs st)"
  by (induction xs arbitrary: st) simp_all

lemma scan_part_no_data: "\<not> truthy (body_data (body p)) \<Longrightarrow> scan_part decode p st = st"
  by (cases st) simp

lemma scan_part_plain_keep:
  "\<not> (mimeType p = Some ''text/plain'' \<and> truthy (body_data (body p))) \<Longrightarrow>
   fst (scan_part decode p st) = fst st"
  by (cases st) (auto simp: Let_def)

lemma scan_part_html_keep:
  "\<not> (mimeType p = Some ''text/html'' \<and> truthy (body_data (body p))) \<Longrightarrow>
   snd (scan_part decode p st) = snd st"
  by (cases st) (auto simp: Let_def)

lemma scan_parts_plain_keep:
  "\<forall>q\<in>set ps. \<not> (mimeType q = Some ''text/plain'' \<and> truthy (body_data (body q))) \<Longrightarrow>
   fst (scan_parts decode ps st) = fst st"
  by (induction ps arbitrary: st) (simp_all add: scan_part_plain_keep del: scan_part.simps)

lemma scan_parts_html_keep:
  "\<forall>q\<in>set ps. \<not> (mimeType q = Some ''text/html'' \<and> truthy (body_data (body q))) \<Longrightarrow>
   snd (scan_parts decode ps st) = snd st"
  by (induction ps arbitrary: st) (simp_all add: scan_part_html_keep del: scan_part.simps)

lemma scan_part_plain_set:
  "mimeType p = Some ''text/plain'' \<Longrightarrow> body_data (body p) = Some d \<Longrightarrow> d \<noteq> [] \<Longrightarrow>
   fst (scan_part decode p st) = decode d"
  by (cases st) (simp add: truthy_def or_empty_def)

lemma scan_part_html_set:
  "mimeType p = Some ''text/html'' \<Longrightarrow> body_data (body p) = Some d \<Longrightarrow> d \<noteq> [] \<Longrightarrow>
   snd (scan_part decode p st) = decode d"
  by (cases st) (simp add: truthy_def or_empty_def)

lemma scan_parts_last_plain:
  assumes "mimeType p = Some ''text/plain''" "body_data (body p) = Some d" "d \<noteq> []"
    and "\<forall>q\<in>set post. \<not> (mimeType q = Some ''text/plain'' \<and> truthy (body_data (body q)))"
  shows "fst (scan_parts decode (pre @ p # post) st) = decode d"
proof -
  have "fst (scan_parts decode (pre @ p # post) st)
        = fst (scan_parts decode post (scan_part decode p (scan_parts decode pre st)))"
    by (simp add: scan_parts_append del: scan_part.simps)
  also have "\<dots> = fst (scan_part decode p (scan_parts decode pre st))"
    using assms(4) by (rule scan_parts_plain_keep)
  also have "\<dots> = decode d"
    using assms(1-3) by (rule scan_part_plain_set)
  finally show ?thesis .
qed

lemma scan_parts_last_html:
  assumes "mimeType p = Some ''text/html''" "body_data (body p) = Some d" "d \<noteq> []"
    and "\<forall>q\<in>set post. \<not> (mimeType q = Some ''text/html'' \<and> truthy (body_data (body q)))"
  shows "snd (scan_parts decode (pre @ p # post) st) = decode d"
proof -
  have "snd (scan_parts decode (pre @ p # post) st)
        = snd (scan_parts decode post (scan_part decode p (scan_parts decode pre st)))"
    by (simp add: scan_parts_append del: scan_part.simps)
  also have "\<dots> = snd (scan_part decode p (scan_parts decode pre st))"
    using assms(4) by (rule scan_parts_html_keep)
  also have "\<dots> = decode d"
    using assms(1-3) by (rule scan_part_html_set)
  finally show ?thesis .
qed

lemma extractBodies_parts:
  "ps \<noteq> [] \<Longrightarrow> parts pl = Some ps \<Longrightarrow>
   extractBodies decode (Some pl) = scan_parts decode ps ([], [])"
  by (cases ps) (simp_all add: extractBodies_def)

lemma textPlain_extract: "textPlain (extractMessage decode m) = fst (extractBodies decode (payload m))"
  by (simp add: extractMessage_def Let_def)

lemma textHtml_extract: "textHtml (extractMessage decode m) = snd (extractBodies decode (payload m))"
  by (simp add: extractMessage_def Let_def)

section \<open>The example decoder on the example data\<close>

lemma base64_hi: "base64_utf8 ''aGk='' = ''hi''"
  by code_simp

lemma base64_ho: "base64_utf8 ''aG8='' = ''ho''"
  by code_simp

lemma base64_empty: "base64_utf8 [] = []"
  by (simp add: base64_utf8_def List.map_filter_def)

lemma base64_bold_hi: "base64_utf8 ''PGI-aGk8L2I-'' = ''<b>hi</b>''"
  by code_simp

section \<open>Body extraction\<close>

text \<open>
  C1, as amended. For a message detail whose payload has a non-empty parts list: the last
  part that has MIME type \<open>text/plain\<close> and carries non-empty body data determines
  \<open>textPlain\<close>, which is the decoding of that data, and \<open>textPlain\<close> is empty when no
  part is such; independently the same holds of \<open>text/html\<close> and \<open>textHtml\<close>. In
  particular, of two \<open>text/plain\<close> parts that both carry data the later one is extracted.
\<close>

theorem last_part_carrying_data_wins:
  assumes "payload msgDetail = Some pl" and "parts pl = Some ps" and "ps \<noteq> []"
  shows
    "(ps = pre @ p # post \<and> mimeType p = Some ''text/plain'' \<and>
        body_data (body p) = Some d \<and> d \<noteq> [] \<and>
        (\<forall>q\<in>set post. \<not> (mimeType q = Some ''text/plain'' \<and> truthy (body_data (body q))))
      \<longrightarrow> textPlain (extractMessage decode msgDetail) = decode d) \<and>
     ((\<forall>q\<in>set ps. \<not> (mimeType q = Some ''text/plain'' \<and> truthy (body_data (body q))))
      \<longrightarrow> textPlain (extractMessage decode msgDetail) = []) \<and>
     (ps = pre' @ p' # post' \<and> mimeType p' = Some ''text/html'' \<and>
        body_data (body p') = Some d' \<and> d' \<noteq> [] \<and>
        (\<forall>q\<in>set post'. \<not> (mimeType q = Some ''text/html'' \<and> truthy (body_data (body q))))
      \<longrightarrow> textHtml (extractMessage decode msgDetail) = decode d') \<and>
     ((\<forall>q\<in>set ps. \<not> (mimeType q = Some ''text/html'' \<and> truthy (body_data (body q))))
      \<longrightarrow> textHtml (extractMessage decode msgDetail) = [])"
proof -
  have bodies: "extractBodies decode (payload msgDetail) = scan_parts decode ps ([], [])"
    using assms by (simp add: extractBodies_parts)
  have plain: "textPlain (extractMessage decode msgDetail) = fst (scan_parts decode ps ([], []))"
    by (simp add: textPlain_extract bodies)
  have html: "textHtml (extractMessage decode msgDetail) = snd (scan_parts decode ps ([], []))"
    by (simp add: textHtml_extract bodies)
  show ?thesis
    unfolding plain html
    by (auto simp: scan_parts_last_plain scan_parts_last_html
        scan_parts_plain_keep scan_parts_html_keep simp del: scan_parts.simps scan_part.simps)
qed

text \<open>
  The example message: the inline text is extracted although a later \<open>text/plain\<close> part
  (the attachment, after which no part carries text data) follows it.
\<close>

theorem last_part_carrying_data_wins_witness:
  "payload ex_detail_attach = Some ex_payload_attach \<and>
   parts ex_payload_attach = Some [ex_inline_plain, ex_inline_html, ex_attached_text] \<and>
   body_data (body ex_inline_plain) = Some ''aGk='' \<and>
   \<not> truthy (body_data (body ex_attached_text)) \<and>
   body_data (body ex_inline_html) = Some ''PGI-aGk8L2I-'' \<and>
   textPlain (extractMessage base64_utf8 ex_detail_attach) = ''hi'' \<and>
   textHtml (extractMessage base64_utf8 ex_detail_attach) = ''<b>hi</b>''"
  using last_part_carrying_data_wins
    [where msgDetail = ex_detail_attach and pl = ex_payload_attach
       and ps = "[ex_inline_plain, ex_inline_html, ex_attached_text]"
       and pre = "[]" and p = ex_inline_plain and post = "[ex_inline_html, ex_attached_text]"
       and d = "''aGk=''"
       and pre' = "[ex_inline_plain]" and p' = ex_inline_html and post' = "[ex_attached_text]"
       and d' = "''PGI-aGk8L2I-''" and decode = base64_utf8]
  by (simp add: ex_detail_attach_def ex_payload_attach_def ex_inline_plain_def
      ex_inline_html_def ex_attached_text_def body_data_def truthy_def
      base64_hi base64_bold_hi)

text \<open>
  C1 as stated fails on the example message: its last part of MIME type \<open>text/plain\<close> is
  the attachment, which has no content of its own, and the extracted \<open>textPlain\<close> is the
  content of the earlier inline part.
\<close>

theorem last_plain_part_wins_counterexample:
  "payload ex_detail_attach = Some ex_payload_attach \<and>
   parts ex_payload_attach = Some [ex_inline_plain, ex_inline_html, ex_attached_text] \<and>
   mimeType ex_inline_plain = Some ''text/plain'' \<and>
   mimeType ex_inline_html = Some ''text/html'' \<and>
   mimeType ex_attached_text = Some ''text/plain'' \<and>
   body_data (body ex_attached_text) = None \<and>
   textPlain (extractMessage base64_utf8 ex_detail_attach) = ''hi'' \<and>
   textPlain (extractMessage base64_utf8 ex_detail_attach)
     \<noteq> base64_utf8 (or_empty (body_data (body ex_attached_text)))"
  by (simp add: ex_detail_attach_def ex_payload_attach_def ex_inline_plain_def
      ex_inline_html_def ex_attached_text_def body_data_def truthy_def or_empty_def
      extractMessage_def extractBodies_def Let_def base64_hi base64_empty)

lemma extractBodies_no_parts:
  "parts pl = None \<or> parts pl = Some [] \<Longrightarrow>
   extractBodies decode (Some pl) =
     (if truthy (body_data (body pl)) then (decode (or_empty (body_data (body pl))), []) else ([], []))"
  by (auto simp: extractBodies_def)

text \<open>
  C2. For a message detail whose payload has no parts (the list is absent or empty, or there
  is no payload at all), \<open>textHtml\<close> is the empty string; \<open>textPlain\<close> is the decoding
  of the payload's own body data when that data is present and non-empty, whatever the
  payload's MIME type, and is empty otherwise.
\<close>

theorem no_parts_top_level_body:
  "(payload msgDetail = None \<longrightarrow>
      textPlain (extractMessage decode msgDetail) = [] \<and>
      textHtml (extractMessage decode msgDetail) = []) \<and>
   (payload msgDetail = Some (MessagePart mt hs b ps) \<and> (ps = None \<or> ps = Some []) \<longrightarrow>
      textHtml (extractMessage decode msgDetail) = [] \<and>
      (body_data b = Some d \<and> d \<noteq> [] \<longrightarrow> textPlain (extractMessage decode msgDetail) = decode d) \<and>
      (\<not> truthy (body_data b) \<longrightarrow> textPlain (extractMessage decode msgDetail) = []))"
proof -
  have none: "payload msgDetail = None \<Longrightarrow> extractBodies decode (payload msgDetail) = ([], [])"
    by (simp add: extractBodies_def)
  have some: "payload msgDetail = Some (MessagePart mt hs b ps) \<Longrightarrow> ps = None \<or> ps = Some [] \<Longrightarrow>
      extractBodies decode (payload msgDetail)
        = (if truthy (body_data b) then (decode (or_empty (body_data b)), []) else ([], []))"
    using extractBodies_no_parts [of "MessagePart mt hs b ps" decode] by simp
  show ?thesis
    unfolding textPlain_extract textHtml_extract
    using none some by (auto simp: truthy_def or_empty_def)
qed

text \<open>The example without parts: its HTML-typed body is extracted as \<open>textPlain\<close>.\<close>

theorem no_parts_top_level_body_witness:
  "payload ex_detail_single = Some ex_payload_single \<and>
   mimeType ex_payload_single = Some ''text/html'' \<and>
   parts ex_payload_single = None \<and>
   body_data (body ex_payload_single) = Some ''PGI-aGk8L2I-'' \<and>
   textHtml (extractMessage base64_utf8 ex_detail_single) = [] \<and>
   textPlain (extractMessage base64_utf8 ex_detail_single) = ''<b>hi</b>''"
  using no_parts_top_level_body
    [where msgDetail = ex_detail_single and decode = base64_utf8
       and mt = "mimeType ex_payload_single" and hs = "headers ex_payload_single"
       and b = "body ex_payload_single" and ps = None and d = "''PGI-aGk8L2I-''"]
  by (simp add: ex_detail_single_def ex_payload_single_def body_data_def base64_bold_hi)

lemma scan_parts_skip:
  "\<not> truthy (body_data (body p)) \<Longrightarrow>
   scan_parts decode (pre @ p # post) st = scan_parts decode (pre @ post) st"
  by (simp add: scan_parts_append scan_part_no_data del: scan_part.simps)

text \<open>
  C10. A part of MIME type \<open>text/plain\<close> or \<open>text/html\<close> whose body carries no data
  is skipped by the scan: its iteration changes neither variable, so the scan gives what it
  gives on the list without that part, and the extraction of a message is unchanged when
  such a part is dropped from a parts list that stays non-empty. Hence the winning part is
  the last matching part that carries data: when such a part \<open>w\<close> is followed, besides the
  skipped part, only by parts that do not match or carry no data, the scan ends with the
  decoding of the data of \<open>w\<close>, from any starting values, and so does the extraction of
  a message with these parts; and when no part of the list matches and carries data, the
  value the variable had before the scan is kept.
\<close>

theorem part_without_data_is_skipped:
  assumes "mimeType p = Some ''text/plain'' \<or> mimeType p = Some ''text/html''"
    and "\<not> truthy (body_data (body p))"
  shows
    "scan_part decode p (tPlain, tHtml) = (tPlain, tHtml) \<and>
     scan_parts decode (pre @ p # post) st = scan_parts decode (pre @ post) st \<and>
     (pre @ post \<noteq> [] \<longrightarrow>
        extractMessage decode (m\<lparr>payload := Some (MessagePart mt hs b (Some (pre @ p # post)))\<rparr>)
          = extractMessage decode (m\<lparr>payload := Some (MessagePart mt hs b (Some (pre @ post)))\<rparr>)) \<and>
     (mimeType w = Some ''text/plain'' \<and> body_data (body w) = Some d \<and> d \<noteq> [] \<and>
        (\<forall>q\<in>set (ys @ zs). mimeType q = Some ''text/plain'' \<longrightarrow> \<not> truthy (body_data (body q)))
      \<longrightarrow> fst (scan_parts decode (xs @ w # ys @ p # zs) st) = decode d \<and>
          (payload msgDetail = Some pl \<and> parts pl = Some (xs @ w # ys @ p # zs)
           \<longrightarrow> textPlain (extractMessage decode msgDetail) = decode d)) \<and>
     (mimeType w' = Some ''text/html'' \<and> body_data (body w') = Some d' \<and> d' \<noteq> [] \<and>
        (\<forall>q\<in>set (ys' @ zs'). mimeType q = Some ''text/html'' \<longrightarrow> \<not> truthy (body_data (body q)))
      \<longrightarrow> snd (scan_parts decode (xs' @ w' # ys' @ p # zs') st) = decode d' \<and>
          (payload msgDetail = Some pl \<and> parts pl = Some (xs' @ w' # ys' @ p # zs')
           \<longrightarrow> textHtml (extractMessage decode msgDetail) = decode d')) \<and>
     ((\<forall>q\<in>set (ys @ zs). mimeType q = Some ''text/plain'' \<longrightarrow> \<not> truthy (body_data (body q)))
      \<longrightarrow> fst (scan_parts decode (ys @ p # zs) st) = fst st) \<and>
     ((\<forall>q\<in>set (ys' @ zs'). mimeType q = Some ''text/html'' \<longrightarrow> \<not> truthy (body_data (body q)))
      \<longrightarrow> snd (scan_parts decode (ys' @ p # zs') st) = snd st)"
proof -
  have step: "scan_part decode p (tPlain, tHtml) = (tPlain, tHtml)"
    using assms(2) by (rule scan_part_no_data)
  have loop: "scan_parts decode (pre @ p # post) st = scan_parts decode (pre @ post) st" for st
    using assms(2) by (rule scan_parts_skip)
  have "extractBodies decode (Some (MessagePart mt hs b (Some (pre @ p # post))))
          = extractBodies decode (Some (MessagePart mt hs b (Some (pre @ post))))"
    if ne: "pre @ post \<noteq> []"
  proof -
    have "extractBodies decode (Some (MessagePart mt hs b (Some (pre @ p # post))))
            = scan_parts decode (pre @ p # post) ([], [])"
      by (rule extractBodies_parts) simp_all
    moreover have "extractBodies decode (Some (MessagePart mt hs b (Some (pre @ post))))
            = scan_parts decode (pre @ post) ([], [])"
      using ne by (intro extractBodies_parts) simp_all
    ultimately show ?thesis by (simp only: loop)
  qed
  then have dropped: "pre @ post \<noteq> [] \<longrightarrow>
        extractMessage decode (m\<lparr>payload := Some (MessagePart mt hs b (Some (pre @ p # post)))\<rparr>)
          = extractMessage decode (m\<lparr>payload := Some (MessagePart mt hs b (Some (pre @ post)))\<rparr>)"
    by (simp add: extractMessage_def payload_headers_def)
  have later: "\<forall>q\<in>set (us @ p # vs). \<not> (mimeType q = Some ty \<and> truthy (body_data (body q)))"
    if "\<forall>q\<in>set (us @ vs). mimeType q = Some ty \<longrightarrow> \<not> truthy (body_data (body q))"
    for us vs ty
    using that assms(2) by auto
  have plain: "fst (scan_parts decode (xs @ w # ys @ p # zs) st) = decode d \<and>
          (payload msgDetail = Some pl \<and> parts pl = Some (xs @ w # ys @ p # zs)
           \<longrightarrow> textPlain (extractMessage decode msgDetail) = decode d)"
    if w: "mimeType w = Some ''text/plain''" "body_data (body w) = Some d" "d \<noteq> []"
      and rest: "\<forall>q\<in>set (ys @ zs). mimeType q = Some ''text/plain'' \<longrightarrow> \<not> truthy (body_data (body q))"
  proof -
    have win: "fst (scan_parts decode (xs @ w # ys @ p # zs) st') = decode d" for st'
      using w later [OF rest] by (rule scan_parts_last_plain)
    have "textPlain (extractMessage decode msgDetail) = decode d"
      if "payload msgDetail = Some pl" "parts pl = Some (xs @ w # ys @ p # zs)"
    proof -
      have "extractBodies decode (payload msgDetail)
              = scan_parts decode (xs @ w # ys @ p # zs) ([], [])"
        unfolding that(1) using _ that(2) by (rule extractBodies_parts) simp
      then show ?thesis by (simp only: textPlain_extract win)
    qed
    with win show ?thesis by blast
  qed
  have html: "snd (scan_parts decode (xs' @ w' # ys' @ p # zs') st) = decode d' \<and>
          (payload msgDetail = Some pl \<and> parts pl = Some (xs' @ w' # ys' @ p # zs')
           \<longrightarrow> textHtml (extractMessage decode msgDetail) = decode d')"
    if w: "mimeType w' = Some ''text/html''" "body_data (body w') = Some d'" "d' \<noteq> []"
      and rest: "\<forall>q\<in>set (ys' @ zs'). mimeType q = Some ''text/html'' \<longrightarrow> \<not> truthy (body_data (body q))"
  proof -
    have win: "snd (scan_parts decode (xs' @ w' # ys' @ p # zs') st') = decode d'" for st'
      using w later [OF rest] by (rule scan_parts_last_html)
    have "textHtml (extractMessage decode msgDetail) = decode d'"
      if "payload msgDetail = Some pl" "parts pl = Some (xs' @ w' # ys' @ p # zs')"
    proof -
      have "extractBodies decode (payload msgDetail)
              = scan_parts decode (xs' @ w' # ys' @ p # zs') ([], [])"
        unfolding that(1) using _ that(2) by (rule extractBodies_parts) simp
      then show ?thesis by (simp only: textHtml_extract win)
    qed
    with win show ?thesis by blast
  qed
  have keep_plain: "fst (scan_parts decode (ys @ p # zs) st) = fst st"
    if "\<forall>q\<in>set (ys @ zs). mimeType q = Some ''text/plain'' \<longrightarrow> \<not> truthy (body_data (body q))"
    using later [OF that] by (rule scan_parts_plain_keep)
  have keep_html: "snd (scan_parts decode (ys' @ p # zs') st) = snd st"
    if "\<forall>q\<in>set (ys' @ zs'). mimeType q = Some ''text/html'' \<longrightarrow> \<not> truthy (body_data (body q))"
    using later [OF that] by (rule scan_parts_html_keep)
  show ?thesis
  proof (intro conjI impI)
    show "scan_part decode p (tPlain, tHtml) = (tPlain, tHtml)" by (rule step)
    show "scan_parts decode (pre @ p # post) st = scan_parts decode (pre @ post) st" by (rule loop)
  qed (use dropped plain html keep_plain keep_html in \<open>blast+\<close>)
qed

text \<open>
  The attachment of the example message is skipped; with two inline text parts before it the
  second one is extracted, and a text already held is kept when no text part carries data.
\<close>

theorem part_without_data_is_skipped_witness:
  "mimeType ex_attached_text = Some ''text/plain'' \<and>
   \<not> truthy (body_data (body ex_attached_text)) \<and>
   scan_part base64_utf8 ex_attached_text (''hi'', ''<b>hi</b>'') = (''hi'', ''<b>hi</b>'') \<and>
   scan_parts base64_utf8 [ex_inline_plain, ex_inline_html, ex_attached_text] ([], [])
     = scan_parts base64_utf8 [ex_inline_plain, ex_inline_html] ([], []) \<and>
   extractMessage base64_utf8 ex_detail_attach
     = extractMessage base64_utf8
         (ex_detail_attach\<lparr>payload :=
            Some (MessagePart (Some ''multipart/mixed'') (Some ex_headers) None
                    (Some [ex_inline_plain, ex_inline_html]))\<rparr>) \<and>
   body_data (body ex_inline_plain) = Some ''aGk='' \<and>
   body_data (body ex_second_plain) = Some ''aG8='' \<and>
   fst (scan_parts base64_utf8
          [ex_inline_plain, ex_second_plain, ex_inline_html, ex_attached_text] ([], [])) = ''ho'' \<and>
   snd (scan_parts base64_utf8
          [ex_inline_plain, ex_second_plain, ex_inline_html, ex_attached_text] ([], []))
     = ''<b>hi</b>'' \<and>
   textPlain (extractMessage base64_utf8 ex_detail_two_plain) = ''ho'' \<and>
   textHtml (extractMessage base64_utf8 ex_detail_two_plain) = ''<b>hi</b>'' \<and>
   fst (scan_parts base64_utf8 [ex_inline_html, ex_attached_text] (''kept'', [])) = ''kept''"
proof -
  have p: "mimeType ex_attached_text = Some ''text/plain'' \<or>
      mimeType ex_attached_text = Some ''text/html''"
    and nodata: "\<not> truthy (body_data (body ex_attached_text))"
    by (simp_all add: ex_attached_text_def body_data_def truthy_def)
  have old: "scan_part base64_utf8 ex_attached_text (''hi'', ''<b>hi</b>'') = (''hi'', ''<b>hi</b>'') \<and>
      scan_parts base64_utf8 [ex_inline_plain, ex_inline_html, ex_attached_text] ([], [])
        = scan_parts base64_utf8 [ex_inline_plain, ex_inline_html] ([], []) \<and>
      extractMessage base64_utf8 ex_detail_attach
        = extractMessage base64_utf8
            (ex_detail_attach\<lparr>payload :=
               Some (MessagePart (Some ''multipart/mixed'') (Some ex_headers) None
                       (Some [ex_inline_plain, ex_inline_html]))\<rparr>)"
    using part_without_data_is_skipped
      [OF p nodata, where decode = base64_utf8 and tPlain = "''hi''"
         and tHtml = "''<b>hi</b>''" and pre = "[ex_inline_plain, ex_inline_html]" and post = "[]"
         and st = "([], [])" and m = ex_detail_attach and mt = "Some ''multipart/mixed''"
         and hs = "Some ex_headers" and b = None]
    by (simp add: ex_detail_attach_def ex_payload_attach_def)
  have data: "body_data (body ex_inline_plain) = Some ''aGk=''"
    "body_data (body ex_second_plain) = Some ''aG8=''"
    "body_data (body ex_inline_html) = Some ''PGI-aGk8L2I-''"
    by (simp_all add: ex_inline_plain_def ex_second_plain_def ex_inline_html_def body_data_def)
  have types: "mimeType ex_second_plain = Some ''text/plain''"
    "mimeType ex_inline_html = Some ''text/html''"
    by (simp_all add: ex_second_plain_def ex_inline_html_def)
  have winners:
    "fst (scan_parts base64_utf8
            [ex_inline_plain, ex_second_plain, ex_inline_html, ex_attached_text] ([], [])) = ''ho'' \<and>
     snd (scan_parts base64_utf8
            [ex_inline_plain, ex_second_plain, ex_inline_html, ex_attached_text] ([], []))
       = ''<b>hi</b>'' \<and>
     textPlain (extractMessage base64_utf8 ex_detail_two_plain) = ''ho'' \<and>
     textHtml (extractMessage base64_utf8 ex_detail_two_plain) = ''<b>hi</b>''"
    using part_without_data_is_skipped
      [OF p nodata, where decode = base64_utf8 and st = "([], [])"
         and w = ex_second_plain and d = "''aG8=''" and xs = "[ex_inline_plain]"
         and ys = "[ex_inline_html]" and zs = "[]"
         and w' = ex_inline_html and d' = "''PGI-aGk8L2I-''"
         and xs' = "[ex_inline_plain, ex_second_plain]" and ys' = "[]" and zs' = "[]"
         and msgDetail = ex_detail_two_plain
         and pl = "MessagePart (Some ''multipart/mixed'') (Some ex_headers) None
             (Some [ex_inline_plain, ex_second_plain, ex_inline_html, ex_attached_text])"]
    by (simp add: data types ex_detail_two_plain_def base64_ho base64_bold_hi
        del: scan_parts.simps scan_part.simps)
  have kept: "fst (scan_parts base64_utf8 [ex_inline_html, ex_attached_text] (''kept'', [])) = ''kept''"
    using part_without_data_is_skipped
      [OF p nodata, where decode = base64_utf8 and st = "(''kept'', [])"
         and ys = "[ex_inline_html]" and zs = "[]"]
    by (simp add: types del: scan_parts.simps scan_part.simps)
  have "mimeType ex_attached_text = Some ''text/plain''"
    by (simp add: ex_attached_text_def)
  with nodata old data(1,2) winners kept show ?thesis
    by (intro conjI) simp_all
qed

section \<open>Header lookup\<close>

lemma find_first_match:
  "P h \<Longrightarrow> \<forall>g\<in>set pre. \<not> P g \<Longrightarrow> find P (pre @ h # post) = Some h"
  by (induction pre) simp_all

lemma find_no_match: "\<forall>g\<in>set hs. \<not> P g \<Longrightarrow> find P hs = None"
  by (induction hs) simp_all

lemma getHeader_first:
  "name h = Some n \<Longrightarrow> \<forall>g\<in>set pre. name g \<noteq> Some n \<Longrightarrow>
   getHeader (pre @ h # post) n = or_empty (value_h h)"
  by (simp add: getHeader_def find_first_match)

lemma getHeader_absent: "\<forall>g\<in>set hs. name g \<noteq> Some n \<Longrightarrow> getHeader hs n = []"
  by (simp add: getHeader_def find_no_match or_empty_def)

lemma subject_extract:
  "subject (extractMessage decode m) =
     (if getHeader (payload_headers m) ''Subject'' = [] then ''(No Subject)''
      else getHeader (payload_headers m) ''Subject'')"
  by (simp add: extractMessage_def Let_def)

text \<open>
  C3. Header lookup is an exact, case-sensitive match on the header's name: the value of
  the first header with that name is returned (the empty string when that header has no
  value), headers whose names differ, be it only in case, are passed over, and the empty
  string is returned when no header has the name. \<open>from\<close> and \<open>date\<close> are the lookups
  of \<open>From\<close> and \<open>Date\<close>; the subject is the lookup of \<open>Subject\<close>, except that it is
  \<open>(No Subject)\<close> whenever no header is named \<open>Subject\<close> or the first such header has
  an empty or missing value.
\<close>

theorem header_lookup_and_subject_default:
  "(hs = pre @ h # post \<and> name h = Some n \<and> (\<forall>g\<in>set pre. name g \<noteq> Some n)
      \<longrightarrow> getHeader hs n = or_empty (value_h h)) \<and>
   ((\<forall>g\<in>set hs. name g \<noteq> Some n) \<longrightarrow> getHeader hs n = []) \<and>
   getHeader [\<lparr> name = Some ''subject'', value_h = Some v \<rparr>] ''Subject'' = [] \<and>
   from_r (extractMessage decode m) = getHeader (payload_headers m) ''From'' \<and>
   date (extractMessage decode m) = getHeader (payload_headers m) ''Date'' \<and>
   (getHeader (payload_headers m) ''Subject'' \<noteq> []
      \<longrightarrow> subject (extractMessage decode m) = getHeader (payload_headers m) ''Subject'') \<and>
   ((\<forall>g\<in>set (payload_headers m). name g \<noteq> Some ''Subject'')
      \<longrightarrow> subject (extractMessage decode m) = ''(No Subject)'') \<and>
   (payload_headers m = pre' @ h' # post' \<and> name h' = Some ''Subject'' \<and>
      (\<forall>g\<in>set pre'. name g \<noteq> Some ''Subject'') \<and> (value_h h' = None \<or> value_h h' = Some [])
      \<longrightarrow> subject (extractMessage decode m) = ''(No Subject)'')"
proof -
  have first: "hs = pre @ h # post \<and> name h = Some n \<and> (\<forall>g\<in>set pre. name g \<noteq> Some n)
      \<longrightarrow> getHeader hs n = or_empty (value_h h)"
    by (auto simp: getHeader_first)
  have absent: "(\<forall>g\<in>set hs. name g \<noteq> Some n) \<longrightarrow> getHeader hs n = []"
    by (simp add: getHeader_absent)
  have case_sens: "getHeader [\<lparr> name = Some ''subject'', value_h = Some v \<rparr>] ''Subject'' = []"
    by (simp add: getHeader_def or_empty_def)
  have others: "from_r (extractMessage decode m) = getHeader (payload_headers m) ''From'' \<and>
      date (extractMessage decode m) = getHeader (payload_headers m) ''Date''"
    by (simp add: extractMessage_def Let_def)
  have present: "getHeader (payload_headers m) ''Subject'' \<noteq> []
      \<longrightarrow> subject (extractMessage decode m) = getHeader (payload_headers m) ''Subject''"
    by (simp add: subject_extract)
  have no_subject: "(\<forall>g\<in>set (payload_headers m). name g \<noteq> Some ''Subject'')
      \<longrightarrow> subject (extractMessage decode m) = ''(No Subject)''"
    by (simp add: subject_extract getHeader_absent)
  have empty_subject: "payload_headers m = pre' @ h' # post' \<and> name h' = Some ''Subject'' \<and>
      (\<forall>g\<in>set pre'. name g \<noteq> Some ''Subject'') \<and> (value_h h' = None \<or> value_h h' = Some [])
      \<longrightarrow> subject (extractMessage decode m) = ''(No Subject)''"
    by (auto simp: subject_extract getHeader_first or_empty_def)
  from first absent case_sens others present no_subject empty_subject show ?thesis
    by blast
qed

text \<open>
  On the example messages: the first of two \<open>Subject\<close> headers is returned, a header
  that is absent gives the empty string, and the default subject is used both when only a
  lower-case \<open>subject\<close> header exists and when the first \<open>Subject\<close> header is empty.
\<close>

theorem header_lookup_and_subject_default_witness:
  "payload_headers ex_detail_attach = ex_headers \<and>
   getHeader ex_headers ''Subject'' = ''Hello'' \<and>
   getHeader ex_headers ''To'' = [] \<and>
   subject (extractMessage base64_utf8 ex_detail_attach) = ''Hello'' \<and>
   from_r (extractMessage base64_utf8 ex_detail_attach) = ''a@example.com'' \<and>
   subject (extractMessage base64_utf8 ex_detail_single) = ''(No Subject)'' \<and>
   subject (extractMessage base64_utf8 ex_detail_empty_subject) = ''(No Subject)''"
proof -
  have hs: "payload_headers ex_detail_attach = ex_headers"
    by (simp add: payload_headers_def ex_detail_attach_def ex_payload_attach_def)
  have a: "getHeader ex_headers ''Subject'' = ''Hello''"
    using header_lookup_and_subject_default
      [where hs = ex_headers and pre = "[\<lparr> name = Some ''From'', value_h = Some ''a@example.com'' \<rparr>]"
         and h = "\<lparr> name = Some ''Subject'', value_h = Some ''Hello'' \<rparr>"
         and post = "[\<lparr> name = Some ''Date'', value_h = Some ''Mon, 1 Jan 2024'' \<rparr>,
                      \<lparr> name = Some ''Subject'', value_h = Some ''Second'' \<rparr>]"
         and n = "''Subject''"]
    by (simp add: ex_headers_def or_empty_def)
  have b: "getHeader ex_headers ''To'' = []"
    using header_lookup_and_subject_default [where hs = ex_headers and n = "''To''"]
    by (simp add: ex_headers_def)
  have c: "subject (extractMessage base64_utf8 ex_detail_attach) = ''Hello'' \<and>
      from_r (extractMessage base64_utf8 ex_detail_attach) = ''a@example.com''"
    using header_lookup_and_subject_default
      [where m = ex_detail_attach and decode = base64_utf8
         and hs = ex_headers and pre = "[]"
         and h = "\<lparr> name = Some ''From'', value_h = Some ''a@example.com'' \<rparr>"
         and post = "tl ex_headers" and n = "''From''"]
    by (simp add: hs a) (simp add: ex_headers_def or_empty_def)
  have d: "subject (extractMessage base64_utf8 ex_detail_single) = ''(No Subject)''"
    using header_lookup_and_subject_default [where m = ex_detail_single and decode = base64_utf8]
    by (simp add: payload_headers_def ex_detail_single_def ex_payload_single_def)
  have e: "subject (extractMessage base64_utf8 ex_detail_empty_subject) = ''(No Subject)''"
    using header_lookup_and_subject_default
      [where m = ex_detail_empty_subject and decode = base64_utf8 and pre' = "[]"
         and h' = "\<lparr> name = Some ''Subject'', value_h = Some [] \<rparr>"
         and post' = "[\<lparr> name = Some ''Subject'', value_h = Some ''Later'' \<rparr>]"]
    by (simp add: payload_headers_def ex_detail_empty_subject_def)
  from hs a b c d e show ?thesis by simp
qed

section \<open>Joining the detail fetches\<close>

lemma those_Some_iff: "those xs = Some ys \<longleftrightarrow> xs = map Some ys"
proof (induction xs arbitrary: ys)
  case Nil
  then show ?case by auto
next
  case (Cons x xs)
  then show ?case by (cases x; cases ys) auto
qed

lemma those_None_iff: "those xs = None \<longleftrightarrow> None \<in> set xs"
proof (induction xs)
  case Nil
  then show ?case by simp
next
  case (Cons x xs)
  then show ?case by (cases x) auto
qed

lemma settle_all_skip:
  "length outcomes \<le> i \<or> length vals \<le> i \<or> vals ! i \<noteq> None \<Longrightarrow>
   settle_all (i # sched) outcomes vals = settle_all sched outcomes vals"
  by auto

lemma settle_all_reject:
  "i < length outcomes \<Longrightarrow> i < length vals \<Longrightarrow> vals ! i = None \<Longrightarrow> outcomes ! i = Inl e \<Longrightarrow>
   settle_all (i # sched) outcomes vals = Some (Inl e)"
  by simp

lemma settle_all_store:
  "i < length outcomes \<Longrightarrow> i < length vals \<Longrightarrow> vals ! i = None \<Longrightarrow> outcomes ! i = Inr v \<Longrightarrow>
   settle_all (i # sched) outcomes vals =
     (case those (vals[i := Some v]) of
        Some vs \<Rightarrow> Some (Inr vs)
      | None \<Rightarrow> settle_all sched outcomes (vals[i := Some v]))"
  by simp

lemma collected_update:
  assumes "length vals = length outcomes"
    and "\<forall>j<length outcomes. vals ! j = None \<or> (\<exists>v. outcomes ! j = Inr v \<and> vals ! j = Some v)"
    and "outcomes ! i = Inr v"
  shows "\<forall>k<length outcomes.
           vals[i := Some v] ! k = None \<or> (\<exists>w. outcomes ! k = Inr w \<and> vals[i := Some v] ! k = Some w)"
proof (intro allI impI)
  fix k assume k: "k < length outcomes"
  show "vals[i := Some v] ! k = None \<or> (\<exists>w. outcomes ! k = Inr w \<and> vals[i := Some v] ! k = Some w)"
  proof (cases "k = i")
    case True
    then have "vals[i := Some v] ! k = Some v" using k assms(1) by simp
    with True assms(3) show ?thesis by simp
  next
    case False
    then have "vals[i := Some v] ! k = vals ! k" by simp
    with assms(2) k show ?thesis by simp
  qed
qed

lemma collected_update_all:
  assumes "length vals = length xs"
    and "\<forall>j<length xs. vals ! j = None \<or> vals ! j = Some (xs ! j)"
  shows "\<forall>k<length xs. vals[i := Some (xs ! i)] ! k = None \<or> vals[i := Some (xs ! i)] ! k = Some (xs ! k)"
proof (intro allI impI)
  fix k assume k: "k < length xs"
  show "vals[i := Some (xs ! i)] ! k = None \<or> vals[i := Some (xs ! i)] ! k = Some (xs ! k)"
  proof (cases "k = i")
    case True
    then show ?thesis using k assms(1) by simp
  next
    case False
    then have "vals[i := Some (xs ! i)] ! k = vals ! k" by simp
    with assms(2) k show ?thesis by simp
  qed
qed

lemma settle_all_fulfilled:
  assumes "length vals = length xs"
    and "\<forall>j<length xs. vals ! j = None \<or> vals ! j = Some (xs ! j)"
    and "None \<in> set vals"
    and "\<forall>j<length xs. vals ! j = None \<longrightarrow> j \<in> set sched"
  shows "settle_all sched (map Inr xs) vals = Some (Inr xs)"
  using assms
proof (induction sched arbitrary: vals)
  case Nil
  from Nil.prems(3) obtain j where "j < length vals" "vals ! j = None"
    by (metis in_set_conv_nth)
  with Nil.prems(1,4) show ?case by fastforce
next
  case (Cons i sched)
  consider (skip) "length xs \<le> i \<or> vals ! i \<noteq> None" | (fresh) "i < length xs" "vals ! i = None"
    by fastforce
  then show ?case
  proof cases
    case skip
    have cover: "\<forall>j<length xs. vals ! j = None \<longrightarrow> j \<in> set sched"
      using Cons.prems(4) skip by fastforce
    have "settle_all (i # sched) (map Inr xs) vals = settle_all sched (map Inr xs) vals"
      using skip by (intro settle_all_skip) auto
    also have "\<dots> = Some (Inr xs)"
      using Cons.prems(1,2,3) cover by (rule Cons.IH)
    finally show ?thesis .
  next
    case fresh
    let ?vals = "vals[i := Some (xs ! i)]"
    have len: "length ?vals = length xs"
      using Cons.prems(1) by simp
    have cons: "\<forall>j<length xs. ?vals ! j = None \<or> ?vals ! j = Some (xs ! j)"
      using Cons.prems(1,2) by (rule collected_update_all)
    have step: "settle_all (i # sched) (map Inr xs) vals =
        (case those ?vals of Some vs \<Rightarrow> Some (Inr vs)
         | None \<Rightarrow> settle_all sched (map Inr xs) ?vals)"
      using fresh Cons.prems(1) by (intro settle_all_store) simp_all
    show ?thesis
    proof (cases "those ?vals")
      case None
      then have pending: "None \<in> set ?vals"
        by (simp add: those_None_iff)
      have cover: "\<forall>j<length xs. ?vals ! j = None \<longrightarrow> j \<in> set sched"
      proof (intro allI impI)
        fix j assume j: "j < length xs" "?vals ! j = None"
        then have "j \<noteq> i" using Cons.prems(1) by auto
        moreover from this j have "vals ! j = None" by simp
        ultimately show "j \<in> set sched" using Cons.prems(4) j(1) by auto
      qed
      have "settle_all sched (map Inr xs) ?vals = Some (Inr xs)"
        using len cons pending cover by (rule Cons.IH)
      with step None show ?thesis by simp
    next
      case (Some vs)
      then have eq: "?vals = map Some vs"
        by (simp add: those_Some_iff)
      have "vs = xs"
      proof (rule nth_equalityI)
        show "length vs = length xs"
          using eq len by (metis length_map)
      next
        fix j assume j: "j < length vs"
        then have jx: "j < length xs" using eq len by (metis length_map)
        have "?vals ! j = Some (vs ! j)" using eq j by simp
        with cons jx show "vs ! j = xs ! j" by auto
      qed
      with step Some show ?thesis by simp
    qed
  qed
qed

lemma settle_all_rejected:
  assumes "length vals = length outcomes"
    and "\<forall>j<length outcomes. vals ! j = None \<or> (\<exists>v. outcomes ! j = Inr v \<and> vals ! j = Some v)"
    and "i < length outcomes" and "outcomes ! i = Inl e"
    and "\<forall>j\<in>set pre. j < length outcomes \<longrightarrow> (\<exists>v. outcomes ! j = Inr v)"
  shows "settle_all (pre @ i # post) outcomes vals = Some (Inl e)"
  using assms(1,2,5)
proof (induction pre arbitrary: vals)
  case Nil
  have "vals ! i = None"
    using Nil.prems(2) assms(3,4) by auto
  then show ?case
    using assms(3,4) Nil.prems(1) by simp
next
  case (Cons j pre)
  have rest: "\<forall>k\<in>set pre. k < length outcomes \<longrightarrow> (\<exists>v. outcomes ! k = Inr v)"
    using Cons.prems(3) by simp
  consider (skip) "length outcomes \<le> j \<or> vals ! j \<noteq> None"
    | (fresh) "j < length outcomes" "vals ! j = None"
    by fastforce
  then show ?case
  proof cases
    case skip
    have "settle_all ((j # pre) @ i # post) outcomes vals
          = settle_all (pre @ i # post) outcomes vals"
      using skip by (simp only: append_Cons, intro settle_all_skip) auto
    also have "\<dots> = Some (Inl e)"
      using Cons.prems(1,2) rest by (rule Cons.IH)
    finally show ?thesis .
  next
    case fresh
    from fresh(1) Cons.prems(3) obtain v where v: "outcomes ! j = Inr v"
      by auto
    let ?vals = "vals[j := Some v]"
    have ji: "j \<noteq> i" using v assms(4) by auto
    have "vals ! i = None"
      using Cons.prems(2) assms(3,4) by auto
    then have "?vals ! i = None" using ji by simp
    then have "None \<in> set ?vals"
      using assms(3) Cons.prems(1) by (metis length_list_update nth_mem)
    then have pending: "those ?vals = None"
      by (simp add: those_None_iff)
    have len: "length ?vals = length outcomes"
      using Cons.prems(1) by simp
    have cons: "\<forall>k<length outcomes. ?vals ! k = None \<or> (\<exists>w. outcomes ! k = Inr w \<and> ?vals ! k = Some w)"
      using Cons.prems(1,2) v by (rule collected_update)
    have "settle_all ((j # pre) @ i # post) outcomes vals
          = (case those ?vals of Some vs \<Rightarrow> Some (Inr vs)
             | None \<Rightarrow> settle_all (pre @ i # post) outcomes ?vals)"
      using fresh v Cons.prems(1) by (simp only: append_Cons, intro settle_all_store) simp_all
    also have "\<dots> = settle_all (pre @ i # post) outcomes ?vals"
      using pending by simp
    also have "\<dots> = Some (Inl e)"
      using len cons rest by (rule Cons.IH)
    finally show ?thesis .
  qed
qed

lemma settle_all_no_partial:
  assumes "length vals = length outcomes"
    and "\<forall>j<length outcomes. vals ! j = None \<or> (\<exists>v. outcomes ! j = Inr v \<and> vals ! j = Some v)"
    and "settle_all sched outcomes vals = Some (Inr vs)"
  shows "outcomes = map Inr vs"
  using assms
proof (induction sched arbitrary: vals)
  case Nil
  then show ?case by simp
next
  case (Cons i sched)
  consider (skip) "length outcomes \<le> i \<or> vals ! i \<noteq> None"
    | (fresh) "i < length outcomes" "vals ! i = None"
    by fastforce
  then show ?case
  proof cases
    case skip
    have "settle_all (i # sched) outcomes vals = settle_all sched outcomes vals"
      using skip by (intro settle_all_skip) auto
    with Cons.prems(3) have "settle_all sched outcomes vals = Some (Inr vs)" by simp
    with Cons.prems(1,2) show ?thesis by (rule Cons.IH)
  next
    case fresh
    show ?thesis
    proof (cases "outcomes ! i")
      case (Inl e)
      with fresh Cons.prems(1,3) show ?thesis by simp
    next
      case (Inr v)
      let ?vals = "vals[i := Some v]"
      have len: "length ?vals = length outcomes"
        using Cons.prems(1) by simp
      have cons: "\<forall>k<length outcomes. ?vals ! k = None \<or> (\<exists>w. outcomes ! k = Inr w \<and> ?vals ! k = Some w)"
        using Cons.prems(1,2) Inr by (rule collected_update)
      have step: "settle_all (i # sched) outcomes vals =
          (case those ?vals of Some ws \<Rightarrow> Some (Inr ws)
           | None \<Rightarrow> settle_all sched outcomes ?vals)"
        using fresh Inr Cons.prems(1) by (intro settle_all_store) simp_all
      show ?thesis
      proof (cases "those ?vals")
        case None
        with step Cons.prems(3) have "settle_all sched outcomes ?vals = Some (Inr vs)" by simp
        with len cons show ?thesis by (rule Cons.IH)
      next
        case (Some ws)
        with step Cons.prems(3) have "ws = vs" by simp
        with Some have eq: "?vals = map Some vs"
          by (simp add: those_Some_iff)
        show ?thesis
        proof (rule nth_equalityI)
          show "length outcomes = length (map Inr vs)"
            using eq len by (metis length_map)
        next
          fix k assume k: "k < length outcomes"
          then have kv: "k < length vs" using eq len by (metis length_map)
          have "?vals ! k = Some (vs ! k)" using eq kv by simp
          with cons k have "outcomes ! k = Inr (vs ! k)" by auto
          then show "outcomes ! k = map Inr vs ! k" using kv by simp
        qed
      qed
    qed
  qed
qed

lemma promise_all_fulfilled:
  assumes "{0..<length xs} \<subseteq> set sched"
  shows "promise_all sched (map Inr xs) = Some (Inr xs)"
proof (cases "xs = []")
  case True
  then show ?thesis by (simp add: promise_all_def)
next
  case False
  have "settle_all sched (map Inr xs) (replicate (length xs) None) = Some (Inr xs)"
  proof (rule settle_all_fulfilled)
    show "None \<in> set (replicate (length xs) None)" using False by simp
    show "\<forall>j<length xs. replicate (length xs) None ! j = None \<longrightarrow> j \<in> set sched"
      using assms by auto
  qed simp_all
  with False show ?thesis by (simp add: promise_all_def)
qed

lemma promise_all_rejected:
  assumes "i < length outcomes" and "outcomes ! i = Inl e"
    and "\<forall>j\<in>set pre. j < length outcomes \<longrightarrow> (\<exists>v. outcomes ! j = Inr v)"
  shows "promise_all (pre @ i # post) outcomes = Some (Inl e)"
proof -
  have "settle_all (pre @ i # post) outcomes (replicate (length outcomes) None) = Some (Inl e)"
    using _ _ assms by (rule settle_all_rejected) simp_all
  moreover have "outcomes \<noteq> []" using assms(1) by auto
  ultimately show ?thesis by (simp add: promise_all_def)
qed

lemma promise_all_no_partial:
  assumes "promise_all sched outcomes = Some (Inr vs)"
  shows "outcomes = map Inr vs"
proof (cases "outcomes = []")
  case True
  with assms show ?thesis by (simp add: promise_all_def)
next
  case False
  with assms have "settle_all sched outcomes (replicate (length outcomes) None) = Some (Inr vs)"
    by (simp add: promise_all_def)
  with _ _ show ?thesis by (rule settle_all_no_partial) simp_all
qed

lemma fetchEmails_listed:
  "messages_list gmail ''me'' 5 = Inr (Some msgs) \<Longrightarrow>
   fetchEmails decode gmail sched = promise_all sched (map (fetchOne decode gmail) msgs)"
  by (simp add: fetchEmails_def)

text \<open>
  C4. When the list call returns the messages \<open>msgs\<close> and every detail fetch succeeds,
  the inbox fetch returns one record per listed message, the i-th being the extraction of
  the detail fetched for the i-th listed identifier, in whatever order the detail fetches
  complete (any schedule in which each of them completes).
\<close>

theorem fetch_results_positional:
  assumes "messages_list gmail ''me'' 5 = Inr (Some msgs)"
    and "\<forall>m\<in>set msgs. messages_get gmail ''me'' (id_l m) = Inr (detail m)"
    and "{0..<length msgs} \<subseteq> set sched"
  shows
    "fetchEmails decode gmail sched
       = Some (Inr (map (\<lambda>m. extractMessage decode (detail m)) msgs)) \<and>
     (\<exists>rs. fetchEmails decode gmail sched = Some (Inr rs) \<and> length rs = length msgs \<and>
        (\<forall>i<length msgs. rs ! i = extractMessage decode (detail (msgs ! i))))"
proof -
  let ?rs = "map (\<lambda>m. extractMessage decode (detail m)) msgs"
  have eq: "map (fetchOne decode gmail) msgs = map Inr ?rs"
    using assms(2) by (simp add: fetchOne_def)
  have "fetchEmails decode gmail sched = promise_all sched (map (fetchOne decode gmail) msgs)"
    using assms(1) by (rule fetchEmails_listed)
  also have "\<dots> = promise_all sched (map Inr ?rs)"
    by (simp only: eq)
  also have "\<dots> = Some (Inr ?rs)"
    using assms(3) by (intro promise_all_fulfilled) simp
  finally have res: "fetchEmails decode gmail sched = Some (Inr ?rs)" .
  moreover have "length ?rs = length msgs \<and>
      (\<forall>i<length msgs. ?rs ! i = extractMessage decode (detail (msgs ! i)))"
    by simp
  ultimately show ?thesis by blast
qed

lemma ex_list: "messages_list ex_gmail ''me'' 5 = Inr (Some ex_listed)"
  by (simp add: ex_gmail_def)

lemma ex_failing_list: "messages_list ex_gmail_failing ''me'' 5 = Inr (Some ex_listed)"
  by (simp add: ex_gmail_failing_def)

text \<open>The example mailbox: the second detail completing first changes nothing.\<close>

theorem fetch_results_positional_witness:
  "messages_list ex_gmail ''me'' 5 = Inr (Some ex_listed) \<and>
   map id_l ex_listed = [Some ''m1'', Some ''m2''] \<and>
   messages_get ex_gmail ''me'' (Some ''m1'') = Inr ex_detail_attach \<and>
   messages_get ex_gmail ''me'' (Some ''m2'') = Inr ex_detail_single \<and>
   fetchEmails base64_utf8 ex_gmail [1, 0]
     = Some (Inr [extractMessage base64_utf8 ex_detail_attach,
                  extractMessage base64_utf8 ex_detail_single]) \<and>
   fetchEmails base64_utf8 ex_gmail [0, 1] = fetchEmails base64_utf8 ex_gmail [1, 0]"
proof -
  have gets: "\<forall>m\<in>set ex_listed. messages_get ex_gmail ''me'' (id_l m) = Inr (ex_detail_of m)"
    by (simp add: ex_listed_def ex_gmail_def ex_detail_of_def)
  have a: "{0..<length ex_listed} \<subseteq> set [1, 0]"
    by (auto simp: ex_listed_def)
  have b: "{0..<length ex_listed} \<subseteq> set [0, 1]"
    by (auto simp: ex_listed_def)
  show ?thesis
    using fetch_results_positional [OF ex_list gets a, of base64_utf8]
      fetch_results_positional [OF ex_list gets b, of base64_utf8]
    by (simp add: ex_list) (simp add: ex_listed_def ex_gmail_def ex_detail_of_def)
qed

text \<open>
  C5. When the detail fetch of some listed message is rejected, the inbox fetch never
  returns a sequence of records, whatever the completion order; it is rejected with the
  error of the first rejected detail fetch in completion order, so with this error when no
  rejected fetch completes before it, and with the error of some rejected detail fetch as
  soon as this one completes at all.
\<close>

theorem fetch_fails_on_first_rejection:
  assumes "messages_list gmail ''me'' 5 = Inr (Some msgs)"
    and "i < length msgs"
    and "messages_get gmail ''me'' (id_l (msgs ! i)) = Inl e"
  shows
    "fetchEmails decode gmail sched \<noteq> Some (Inr rs) \<and>
     (sched = pre @ i # post \<and>
        (\<forall>j\<in>set pre. j < length msgs \<longrightarrow> (\<exists>d. messages_get gmail ''me'' (id_l (msgs ! j)) = Inr d))
      \<longrightarrow> fetchEmails decode gmail sched = Some (Inl e)) \<and>
     (i \<in> set sched
      \<longrightarrow> (\<exists>j e'. j < length msgs \<and> messages_get gmail ''me'' (id_l (msgs ! j)) = Inl e' \<and>
             fetchEmails decode gmail sched = Some (Inl e')))"
proof -
  let ?os = "map (fetchOne decode gmail) msgs"
  have fetch: "fetchEmails decode gmail sched = promise_all sched ?os" for sched
    using assms(1) by (rule fetchEmails_listed)
  have rejected: "fetchOne decode gmail (msgs ! j) = Inl x"
    if "messages_get gmail ''me'' (id_l (msgs ! j)) = Inl x" for j x
    using that by (simp add: fetchOne_def)
  have fulfilled: "\<exists>v. fetchOne decode gmail (msgs ! j) = Inr v"
    if "messages_get gmail ''me'' (id_l (msgs ! j)) = Inr d" for j d
    using that by (simp add: fetchOne_def)
  have first: "promise_all (ys @ j # zs) ?os = Some (Inl x)"
    if "j < length msgs" "messages_get gmail ''me'' (id_l (msgs ! j)) = Inl x"
      "\<forall>k\<in>set ys. k < length msgs \<longrightarrow> (\<exists>d. messages_get gmail ''me'' (id_l (msgs ! k)) = Inr d)"
    for ys j zs x
  proof (rule promise_all_rejected)
    show "j < length ?os" using that(1) by simp
    show "?os ! j = Inl x" using that(1,2) by (simp add: rejected)
    show "\<forall>k\<in>set ys. k < length ?os \<longrightarrow> (\<exists>v. ?os ! k = Inr v)"
    proof (intro ballI impI)
      fix k assume k: "k \<in> set ys" "k < length ?os"
      with that(3) obtain d where "messages_get gmail ''me'' (id_l (msgs ! k)) = Inr d" by auto
      then obtain v where "fetchOne decode gmail (msgs ! k) = Inr v" using fulfilled by blast
      with k(2) show "\<exists>v. ?os ! k = Inr v" by simp
    qed
  qed
  have no_partial: "fetchEmails decode gmail sched \<noteq> Some (Inr rs)"
  proof
    assume "fetchEmails decode gmail sched = Some (Inr rs)"
    then have "?os = map Inr rs"
      unfolding fetch by (rule promise_all_no_partial)
    then have "?os ! i = map Inr rs ! i \<and> i < length rs"
      using assms(2) by (metis length_map)
    then have "?os ! i = Inr (rs ! i)" by simp
    moreover have "?os ! i = Inl e" using assms(2,3) by (simp add: rejected)
    ultimately show False by simp
  qed
  have at_first: "sched = pre @ i # post \<and>
        (\<forall>j\<in>set pre. j < length msgs \<longrightarrow> (\<exists>d. messages_get gmail ''me'' (id_l (msgs ! j)) = Inr d))
      \<longrightarrow> fetchEmails decode gmail sched = Some (Inl e)"
  proof (intro impI, elim conjE)
    assume s: "sched = pre @ i # post"
      and ok: "\<forall>j\<in>set pre. j < length msgs \<longrightarrow> (\<exists>d. messages_get gmail ''me'' (id_l (msgs ! j)) = Inr d)"
    have "promise_all (pre @ i # post) ?os = Some (Inl e)"
      using assms(2,3) ok by (rule first)
    then show "fetchEmails decode gmail sched = Some (Inl e)"
      by (simp only: fetch s)
  qed
  have some: "i \<in> set sched
      \<longrightarrow> (\<exists>j e'. j < length msgs \<and> messages_get gmail ''me'' (id_l (msgs ! j)) = Inl e' \<and>
             fetchEmails decode gmail sched = Some (Inl e'))"
  proof
    assume mem: "i \<in> set sched"
    define P where "P j \<longleftrightarrow> j < length msgs \<and> (\<exists>x. messages_get gmail ''me'' (id_l (msgs ! j)) = Inl x)" for j
    have "P i" using assms(2,3) by (auto simp: P_def)
    with mem have "\<exists>j\<in>set sched. P j" by blast
    then obtain ys j zs where split: "sched = ys @ j # zs" "P j" "\<forall>k\<in>set ys. \<not> P k"
      using split_list_first_prop [of sched P] by blast
    from split(2) obtain x where x: "j < length msgs"
      "messages_get gmail ''me'' (id_l (msgs ! j)) = Inl x" by (auto simp: P_def)
    have "\<forall>k\<in>set ys. k < length msgs \<longrightarrow> (\<exists>d. messages_get gmail ''me'' (id_l (msgs ! k)) = Inr d)"
    proof (intro ballI impI)
      fix k assume k: "k \<in> set ys" "k < length msgs"
      with split(3) have "\<not> P k" by blast
      with k(2) have "\<forall>x. messages_get gmail ''me'' (id_l (msgs ! k)) \<noteq> Inl x"
        by (simp add: P_def)
      then show "\<exists>d. messages_get gmail ''me'' (id_l (msgs ! k)) = Inr d"
        by (cases "messages_get gmail ''me'' (id_l (msgs ! k))") simp_all
    qed
    with x have "promise_all (ys @ j # zs) ?os = Some (Inl x)" by (rule first)
    then have "fetchEmails decode gmail sched = Some (Inl x)"
      by (simp only: fetch split(1))
    with x show "\<exists>j e'. j < length msgs \<and> messages_get gmail ''me'' (id_l (msgs ! j)) = Inl e' \<and>
             fetchEmails decode gmail sched = Some (Inl e')"
      by (intro exI conjI)
  qed
  show ?thesis
    by (rule conjI [OF no_partial conjI [OF at_first some]])
qed

text \<open>
  The example mailbox whose second detail fetch is rejected: the fetch fails in both
  completion orders, and the record of the first message is not returned alone.
\<close>

theorem fetch_fails_on_first_rejection_witness:
  "messages_list ex_gmail_failing ''me'' 5 = Inr (Some ex_listed) \<and>
   (1::nat) < length ex_listed \<and>
   messages_get ex_gmail_failing ''me'' (id_l (ex_listed ! 1)) = Inl (ApiError ''backend error'') \<and>
   messages_get ex_gmail_failing ''me'' (id_l (ex_listed ! 0)) = Inr ex_detail_attach \<and>
   fetchEmails base64_utf8 ex_gmail_failing [0, 1] = Some (Inl (ApiError ''backend error'')) \<and>
   fetchEmails base64_utf8 ex_gmail_failing [1, 0] = Some (Inl (ApiError ''backend error'')) \<and>
   fetchEmails base64_utf8 ex_gmail_failing [0, 1]
     \<noteq> Some (Inr [extractMessage base64_utf8 ex_detail_attach])"
proof -
  have len: "(1::nat) < length ex_listed"
    by (simp add: ex_listed_def)
  have rej: "messages_get ex_gmail_failing ''me'' (id_l (ex_listed ! 1)) = Inl (ApiError ''backend error'')"
    by (simp add: ex_listed_def ex_gmail_failing_def)
  have ok: "messages_get ex_gmail_failing ''me'' (id_l (ex_listed ! 0)) = Inr ex_detail_attach"
    by (simp add: ex_listed_def ex_gmail_failing_def)
  have r1: "fetchEmails base64_utf8 ex_gmail_failing [0, 1] = Some (Inl (ApiError ''backend error'')) \<and>
      fetchEmails base64_utf8 ex_gmail_failing [0, 1]
        \<noteq> Some (Inr [extractMessage base64_utf8 ex_detail_attach])"
    using fetch_fails_on_first_rejection [OF ex_failing_list len rej, of base64_utf8 "[0, 1]"
        "[extractMessage base64_utf8 ex_detail_attach]" "[0]" "[]"] ok
    by simp
  have r2: "fetchEmails base64_utf8 ex_gmail_failing [1, 0] = Some (Inl (ApiError ''backend error''))"
    using fetch_fails_on_first_rejection [OF ex_failing_list len rej, of base64_utf8 "[1, 0]"
        "[]" "[]" "[0]"]
    by simp
  from r1 have r1a: "fetchEmails base64_utf8 ex_gmail_failing [0, 1] = Some (Inl (ApiError ''backend error''))"
    and r1b: "fetchEmails base64_utf8 ex_gmail_failing [0, 1]
        \<noteq> Some (Inr [extractMessage base64_utf8 ex_detail_attach])"
    by (rule conjunct1, rule conjunct2)
  show ?thesis
    by (intro conjI) (rule ex_failing_list len rej ok r1a r2 r1b)+
qed

section \<open>The account store\<close>

lemma upsert_present:
  "\<exists>acc\<in>set s. email acc = e \<Longrightarrow> upsertIfAbsent e t m s = s"
  by (auto simp: upsertIfAbsent_def find_None_iff)

lemma upsert_absent:
  "\<forall>acc\<in>set s. email acc \<noteq> e \<Longrightarrow>
   upsertIfAbsent e t m s = s @ [\<lparr> email = e, tokens = t, messages = m \<rparr>]"
  by (auto simp: upsertIfAbsent_def find_None_iff)

lemma upsert_contains: "\<exists>acc\<in>set (upsertIfAbsent e t m s). email acc = e"
  by (cases "\<exists>acc\<in>set s. email acc = e") (auto simp: upsert_present upsert_absent)

lemma upsert_distinct:
  "distinct (map email s) \<Longrightarrow> distinct (map email (upsertIfAbsent e t m s))"
  by (cases "\<exists>acc\<in>set s. email acc = e") (auto simp: upsert_present upsert_absent)

lemma remove_distinct:
  "distinct (map email s) \<Longrightarrow> distinct (map email (removeByEmail e s))"
  by (simp add: removeByEmail_def distinct_map_filter)

lemma refresh_store_unchanged: "refreshAndListAll g s = Some (s', r) \<Longrightarrow> s' = s"
  by (auto simp: refreshAndListAll_def split: option.splits sum.splits)

lemma apply_refresh: "apply_op g Refresh s = s"
  by (auto simp: refresh_store_unchanged split: option.splits)

lemma apply_op_distinct:
  "distinct (map email s) \<Longrightarrow> distinct (map email (apply_op g op s))"
  by (cases op) (simp_all add: upsert_distinct remove_distinct delete_email_def apply_refresh
      del: apply_op.simps(3))

lemma run_ops_distinct:
  "distinct (map email s) \<Longrightarrow> distinct (map email (run_ops g ops s))"
  by (induction ops arbitrary: s) (simp_all add: apply_op_distinct del: apply_op.simps)

lemma callback_store:
  "auth_google_callback g isLocal code s = Some (s', r) \<Longrightarrow>
   s' = s \<or> (\<exists>e t m. s' = upsertIfAbsent e t m s)"
  by (auto simp: auth_google_callback_def split: if_splits option.splits sum.splits)

lemma refreshLoop_emails:
  "refreshLoop g accs upd = Some (Inr out) \<Longrightarrow> map fst out = map fst upd @ map email accs"
proof (induction accs arbitrary: upd)
  case Nil
  then show ?case by simp
next
  case (Cons acc accs)
  from Cons.prems obtain msgs where
    "fetchEmailsFor g (tokens acc) = Some (Inr msgs)"
    "refreshLoop g accs (upd @ [(email acc, msgs)]) = Some (Inr out)"
    by (auto split: option.splits sum.splits)
  from Cons.IH [OF this(2)] show ?case by simp
qed

lemma refreshLoop_fulfilled:
  "\<forall>acc\<in>set accs. fetchEmailsFor g (tokens acc) = Some (Inr (fresh acc)) \<Longrightarrow>
   refreshLoop g accs upd = Some (Inr (upd @ map (\<lambda>acc. (email acc, fresh acc)) accs))"
  by (induction accs arbitrary: upd) simp_all

lemma ex_fetch:
  "fetchEmails base64_utf8 ex_gmail ex_sched
     = Some (Inr [extractMessage base64_utf8 ex_detail_attach,
                  extractMessage base64_utf8 ex_detail_single])"
  by code_simp

lemma ex_run: "run_ops ex_provider ex_ops [] = [ex_account]"
  by (simp add: ex_ops_def apply_refresh upsertIfAbsent_def removeByEmail_def delete_email_def
      ex_account_def del: apply_op.simps(3))

text \<open>
  C6. \<open>upsertIfAbsent\<close> leaves the store as it is when an account with the email exists
  (so the stored tokens stay and no second entry appears, also when it is called twice), and
  otherwise appends the new account at the end; a callback request that redirects changes
  the store by exactly this operation.
\<close>

theorem upsert_if_absent:
  "((\<exists>acc\<in>set s. email acc = e) \<longrightarrow> upsertIfAbsent e t m s = s) \<and>
   ((\<forall>acc\<in>set s. email acc \<noteq> e)
      \<longrightarrow> upsertIfAbsent e t m s = s @ [\<lparr> email = e, tokens = t, messages = m \<rparr>]) \<and>
   upsertIfAbsent e t' m' (upsertIfAbsent e t m s) = upsertIfAbsent e t m s \<and>
   (auth_google_callback g isLocal code s = Some (s', Redirect url)
      \<longrightarrow> (\<exists>e' t'' m''. s' = upsertIfAbsent e' t'' m'' s))"
proof -
  have twice: "upsertIfAbsent e t' m' (upsertIfAbsent e t m s) = upsertIfAbsent e t m s"
    using upsert_contains by (rule upsert_present)
  have handler: "auth_google_callback g isLocal code s = Some (s', Redirect url)
      \<longrightarrow> (\<exists>e' t'' m''. s' = upsertIfAbsent e' t'' m'' s)"
    by (auto simp: auth_google_callback_def split: if_splits option.splits sum.splits)
  show ?thesis
    using twice handler by (simp add: upsert_present upsert_absent)
qed

text \<open>A second login with a stored email keeps the stored tokens; a new email is appended.\<close>

theorem upsert_if_absent_witness:
  "email ex_account = ''a@example.com'' \<and> tokens ex_account = 7 \<and>
   upsertIfAbsent ''a@example.com'' 9 [] [ex_account] = [ex_account] \<and>
   upsertIfAbsent ''b@example.com'' 8 [] [ex_account]
     = [ex_account, \<lparr> email = ''b@example.com'', tokens = 8, messages = [] \<rparr>] \<and>
   auth_google_callback ex_provider True (Some ''code'') [ex_account]
     = Some ([ex_account], Redirect ''http://localhost:5173/inbox'')"
proof -
  have a: "upsertIfAbsent ''a@example.com'' 9 [] [ex_account] = [ex_account]"
    using upsert_if_absent [where s = "[ex_account]" and e = "''a@example.com''" and t = 9 and m = "[]"]
    by (simp add: ex_account_def)
  have b: "upsertIfAbsent ''b@example.com'' 8 [] [ex_account]
     = [ex_account, \<lparr> email = ''b@example.com'', tokens = 8, messages = [] \<rparr>]"
    using upsert_if_absent [where s = "[ex_account]" and e = "''b@example.com''" and t = 8 and m = "[]"]
    by (simp add: ex_account_def)
  have c: "auth_google_callback ex_provider True (Some ''code'') [ex_account]
     = Some ([ex_account], Redirect ''http://localhost:5173/inbox'')"
    by (simp add: auth_google_callback_def truthy_def or_empty_def ex_provider_def ex_fetch
        upsertIfAbsent_def ex_account_def)
  from a b c show ?thesis by (simp add: ex_account_def)
qed

text \<open>
  C7. After any sequence of store operations from the empty store no two accounts have the
  same email, and each of \<open>upsertIfAbsent\<close>, \<open>removeByEmail\<close>, \<open>refreshAndListAll\<close>
  and the callback request keeps a store in which emails are pairwise different in that
  state.
\<close>

theorem one_account_per_email:
  "distinct (map email (run_ops g ops [])) \<and>
   (distinct (map email s) \<longrightarrow>
      distinct (map email (upsertIfAbsent e t m s)) \<and>
      distinct (map email (removeByEmail e s)) \<and>
      (refreshAndListAll g s = Some (s', r) \<longrightarrow> distinct (map email s')) \<and>
      (auth_google_callback g isLocal code s = Some (s'', r') \<longrightarrow> distinct (map email s'')) \<and>
      distinct (map email (apply_op g op s)) \<and>
      distinct (map email (run_ops g ops s)))"
proof -
  have start: "distinct (map email (run_ops g ops []))"
    by (rule run_ops_distinct) simp
  have preserved:
    "distinct (map email (upsertIfAbsent e t m s)) \<and>
     distinct (map email (removeByEmail e s)) \<and>
     (refreshAndListAll g s = Some (s', r) \<longrightarrow> distinct (map email s')) \<and>
     (auth_google_callback g isLocal code s = Some (s'', r') \<longrightarrow> distinct (map email s'')) \<and>
     distinct (map email (apply_op g op s)) \<and>
     distinct (map email (run_ops g ops s))"
    if inv: "distinct (map email s)"
  proof (intro conjI impI)
    show "distinct (map email (upsertIfAbsent e t m s))"
      using inv by (rule upsert_distinct)
    show "distinct (map email (removeByEmail e s))"
      using inv by (rule remove_distinct)
    show "distinct (map email s')" if "refreshAndListAll g s = Some (s', r)"
      using refresh_store_unchanged [OF that] inv by simp
    show "distinct (map email s'')" if cb: "auth_google_callback g isLocal code s = Some (s'', r')"
    proof -
      from callback_store [OF cb] consider "s'' = s" | x y z where "s'' = upsertIfAbsent x y z s"
        by blast
      then show ?thesis
      proof cases
        case 1
        with inv show ?thesis by simp
      next
        case 2
        with inv show ?thesis by (simp only: upsert_distinct)
      qed
    qed
    show "distinct (map email (apply_op g op s))"
      using inv by (rule apply_op_distinct)
    show "distinct (map email (run_ops g ops s))"
      using inv by (rule run_ops_distinct)
  qed
  show ?thesis
    by (rule conjI [OF start]) (rule impI, erule preserved)
qed

text \<open>The example sequence of operations ends with the first account alone.\<close>

theorem one_account_per_email_witness:
  "distinct (map email [ex_account]) \<and>
   upsertIfAbsent ''a@example.com'' 9 [] [ex_account] = [ex_account] \<and>
   distinct (map email (upsertIfAbsent ''a@example.com'' 9 [] [ex_account])) \<and>
   run_ops ex_provider ex_ops [] = [ex_account] \<and>
   distinct (map email (run_ops ex_provider ex_ops []))"
proof -
  have inv: "distinct (map email [ex_account])"
    by simp
  have same: "upsertIfAbsent ''a@example.com'' 9 [] [ex_account] = [ex_account]"
    by (simp add: upsertIfAbsent_def ex_account_def)
  note inst = one_account_per_email
    [where s = "[ex_account]" and e = "''a@example.com''" and t = 9 and m = "[]"
       and g = ex_provider and ops = ex_ops]
  from inst have run: "distinct (map email (run_ops ex_provider ex_ops []))"
    by (rule conjunct1)
  from inst inv have "distinct (map email (upsertIfAbsent ''a@example.com'' 9 [] [ex_account]))"
    by blast
  with inv same ex_run run show ?thesis
    by (intro conjI)
qed

text \<open>
  C8. After \<open>removeByEmail\<close> no account of the store has the removed email and every
  other account is still there; a second removal changes nothing, nor does the removal of
  an email no account has; the delete request always answers with success; and a listing
  that follows the removal does not contain the email.
\<close>

theorem remove_by_email:
  "(\<forall>acc\<in>set (removeByEmail e s). email acc \<noteq> e) \<and>
   (\<forall>acc\<in>set s. email acc \<noteq> e \<longrightarrow> acc \<in> set (removeByEmail e s)) \<and>
   removeByEmail e (removeByEmail e s) = removeByEmail e s \<and>
   ((\<forall>acc\<in>set s. email acc \<noteq> e) \<longrightarrow> removeByEmail e s = s) \<and>
   delete_email e s = (removeByEmail e s, JsonSuccess) \<and>
   (refreshAndListAll g (removeByEmail e s) = Some (s', JsonAccounts out)
      \<longrightarrow> e \<notin> fst ` set out)"
proof -
  have listing: "e \<notin> fst ` set out"
    if "refreshAndListAll g (removeByEmail e s) = Some (s', JsonAccounts out)"
  proof -
    from that have "refreshLoop g (removeByEmail e s) [] = Some (Inr out)"
      by (auto simp: refreshAndListAll_def split: option.splits sum.splits)
    then have "map fst out = map email (removeByEmail e s)"
      using refreshLoop_emails by fastforce
    then have "fst ` set out = email ` set (removeByEmail e s)"
      by (metis list.set_map)
    then show ?thesis by (auto simp: removeByEmail_def)
  qed
  have absent: "(\<forall>acc\<in>set s. email acc \<noteq> e) \<longrightarrow> removeByEmail e s = s"
    by (simp add: removeByEmail_def filter_id_conv)
  show ?thesis
    using listing absent by (simp add: removeByEmail_def delete_email_def)
qed

text \<open>Removing the first of two accounts, and removing an email that is not stored.\<close>

theorem remove_by_email_witness:
  "removeByEmail ''a@example.com''
     [ex_account, \<lparr> email = ''b@example.com'', tokens = 8, messages = [] \<rparr>]
     = [\<lparr> email = ''b@example.com'', tokens = 8, messages = [] \<rparr>] \<and>
   removeByEmail ''c@example.com'' [ex_account] = [ex_account] \<and>
   delete_email ''c@example.com'' [ex_account] = ([ex_account], JsonSuccess) \<and>
   refreshAndListAll ex_provider (removeByEmail ''a@example.com''
       [ex_account, \<lparr> email = ''b@example.com'', tokens = 8, messages = [] \<rparr>])
     = Some ([\<lparr> email = ''b@example.com'', tokens = 8, messages = [] \<rparr>],
             JsonAccounts [(''b@example.com'',
               [extractMessage base64_utf8 ex_detail_attach,
                extractMessage base64_utf8 ex_detail_single])]) \<and>
   ''a@example.com'' \<notin> fst ` set [(''b@example.com'',
               [extractMessage base64_utf8 ex_detail_attach,
                extractMessage base64_utf8 ex_detail_single])]"
proof -
  let ?b = "\<lparr> email = ''b@example.com'', tokens = 8::nat, messages = [] \<rparr>"
  let ?out = "[(''b@example.com'', [extractMessage base64_utf8 ex_detail_attach,
                extractMessage base64_utf8 ex_detail_single])]"
  have rm: "removeByEmail ''a@example.com'' [ex_account, ?b] = [?b]"
    by (simp add: removeByEmail_def ex_account_def)
  have ls: "refreshAndListAll ex_provider (removeByEmail ''a@example.com'' [ex_account, ?b])
      = Some ([?b], JsonAccounts ?out)"
    by (simp add: rm refreshAndListAll_def ex_provider_def ex_fetch)
  have a: "''a@example.com'' \<notin> fst ` set ?out"
    using remove_by_email [where e = "''a@example.com''" and s = "[ex_account, ?b]"
        and g = ex_provider and s' = "[?b]" and out = ?out] ls
    by blast
  have b: "removeByEmail ''c@example.com'' [ex_account] = [ex_account] \<and>
      delete_email ''c@example.com'' [ex_account] = ([ex_account], JsonSuccess)"
    using remove_by_email [where e = "''c@example.com''" and s = "[ex_account]"]
    by (simp add: ex_account_def)
  from rm ls a b show ?thesis by (intro conjI) simp_all
qed

text \<open>
  C9. \<open>refreshAndListAll\<close> never changes the store: after the request the accounts, and
  so the cached \<open>messages\<close> of each, are what they were before it, whether it answers
  with the list or with an error. When every account's fetch succeeds it answers with one
  pair for every stored account, in store order: the account's email with the messages just
  fetched for its tokens.
\<close>

theorem refresh_leaves_store_unchanged:
  "(refreshAndListAll g s = Some (s', r) \<longrightarrow> s' = s \<and> map messages s' = map messages s) \<and>
   ((\<forall>acc\<in>set s. fetchEmailsFor g (tokens acc) = Some (Inr (fresh acc)))
      \<longrightarrow> refreshAndListAll g s
            = Some (s, JsonAccounts (map (\<lambda>acc. (email acc, fresh acc)) s)))"
proof -
  have frame: "refreshAndListAll g s = Some (s', r) \<longrightarrow> s' = s \<and> map messages s' = map messages s"
    using refresh_store_unchanged by blast
  have fresh: "refreshAndListAll g s = Some (s, JsonAccounts (map (\<lambda>acc. (email acc, fresh acc)) s))"
    if "\<forall>acc\<in>set s. fetchEmailsFor g (tokens acc) = Some (Inr (fresh acc))"
    using refreshLoop_fulfilled [OF that, of "[]"] by (simp add: refreshAndListAll_def)
  from frame fresh show ?thesis by blast
qed

text \<open>
  The example account, stored with an empty cache: the listing carries the fetched messages
  and the stored account still has the empty cache.
\<close>

theorem refresh_leaves_store_unchanged_witness:
  "messages ex_account = [] \<and>
   fetchEmailsFor ex_provider (tokens ex_account)
     = Some (Inr [extractMessage base64_utf8 ex_detail_attach,
                  extractMessage base64_utf8 ex_detail_single]) \<and>
   refreshAndListAll ex_provider [ex_account]
     = Some ([ex_account],
             JsonAccounts [(''a@example.com'',
               [extractMessage base64_utf8 ex_detail_attach,
                extractMessage base64_utf8 ex_detail_single])])"
proof -
  let ?fresh = "[extractMessage base64_utf8 ex_detail_attach,
                 extractMessage base64_utf8 ex_detail_single]"
  have f: "fetchEmailsFor ex_provider (tokens ex_account) = Some (Inr ?fresh)"
    by (simp add: ex_provider_def ex_fetch)
  have "refreshAndListAll ex_provider [ex_account]
      = Some ([ex_account], JsonAccounts [(email ex_account, ?fresh)])"
    using refresh_leaves_store_unchanged
      [where g = ex_provider and s = "[ex_account]" and fresh = "\<lambda>acc. ?fresh"] f
    by simp
  moreover have "email ex_account = ''a@example.com''" "messages ex_account = []"
    by (simp_all add: ex_account_def)
  ultimately show ?thesis using f by simp
qed

end
